theory Spec2Isabelle
  imports Complex_Main "HOL-Library.Sublist" "HOL-Library.Word"
begin

section \<open>Data model (types.ts)\<close>

datatype ViewState = HOME | SCANNING | RESULT | BATCH_PROCESSING | BATCH_RESULT
  | DASHBOARD | SETTINGS

datatype AnalysisStatus = IDLE | UPLOADING | ANALYZING | COMPLETE | ERROR

text \<open>
  Values that cross the untyped boundaries of the program (the bridge payload, the parsed
  response of the analysis service). \<open>JNum\<close> carries a finite number, \<open>JNaN\<close> the
  not-a-number value; an object is the list of its own properties.
\<close>

datatype jsval = JUndefined | JNull | JBool bool | JNum rat | JNaN | JStr string
  | JArr "jsval list" | JObj "(string \<times> jsval) list"

text \<open>A browser \<open>File\<close>: its name, its MIME type and its contents.\<close>

record File =
  name :: string
  type :: string
  bytes :: string

record FileData =
  file' :: "File option"
  previewUrl :: string
  mimeType :: string
  base64 :: string

text \<open>
  \<open>AnalysisResult\<close>. The interface is only a compile-time annotation: at run time each
  property holds whatever value the service or the bridge delivered, and an absent
  property reads as \<open>JUndefined\<close>.
\<close>

record AnalysisResult =
  isAI :: jsval
  score :: jsval
  verdict :: jsval
  reasoning :: jsval
  technicalDetails :: jsval
  modelSignature :: jsval
  forensicMetrics :: jsval
  humanPerception :: jsval
  suspiciousRegions :: jsval
  watermark :: jsval
  videoAnalysis :: jsval
  timestamp :: string

record HistoryItem = AnalysisResult +
  id' :: string
  thumbnail :: string

record BatchAnalysisResult =
  fileName :: string
  result :: AnalysisResult
  thumbnail' :: string

text \<open>
  A rejected promise or a thrown value: an \<open>Error\<close> instance with its message, or some
  other value (the event a \<open>FileReader\<close> passes to \<open>onerror\<close>).
\<close>

datatype error = Error string | Other

text \<open>
  Calls that leave the controller, in the order they are made: the preprocessing of a
  file, the request to the analysis service with its payload and MIME type, a user-visible
  alert, the message posted to the host's upload handler, the call of the host's own
  result handler.
\<close>

datatype effect = Preprocess File | Analyze string string | Alert string
  | PostMessage string | OriginalHandleResult jsval

text \<open>
  What the browser and the network answer. \<open>readAsDataURL\<close> is the part of the reader's
  data URL after the comma (the base64 text of the file's bytes), \<open>None\<close> when the reader
  fires \<open>onerror\<close>; \<open>imageLoad\<close> gives \<open>img.width\<close> and \<open>img.height\<close> (each an
  unsigned long of the DOM), \<open>None\<close> when the image fires \<open>onerror\<close>; \<open>fl\<close> rounds the exact result of an arithmetic operation to
  the number the engine stores; \<open>getContext\<close> tells whether a canvas of that size gives a
  2d context; \<open>toDataURL\<close> is the part after the comma of the canvas's data URL for the
  image drawn at that size, in that format and quality; \<open>generateContent\<close> is the
  service's \<open>response.text\<close>; \<open>toLowerCase\<close> is the engine's
  \<open>String.prototype.toLowerCase\<close>, which follows the Unicode case mappings. A string is
  held as the bytes of its UTF-8 form, in which a keyword of ASCII letters occurs exactly
  where it occurs in the string.
\<close>

record env =
  readAsDataURL :: "File \<Rightarrow> string option"
  imageLoad :: "File \<Rightarrow> (32 word \<times> 32 word) option"
  fl :: "rat \<Rightarrow> rat"
  getContext :: "nat \<Rightarrow> nat \<Rightarrow> bool"
  toDataURL :: "File \<Rightarrow> nat \<Rightarrow> nat \<Rightarrow> string \<Rightarrow> rat \<Rightarrow> string"
  generateContent :: "string \<Rightarrow> string \<Rightarrow> error + string option"
  JSON_parse :: "string \<Rightarrow> jsval option"
  toLowerCase :: "string \<Rightarrow> string"
  now :: string
  randomUUID :: string
  createObjectURL :: "File \<Rightarrow> string"
  hasUploadHandler :: bool
  hasOriginalHandleResult :: bool

text \<open>
  The state of the \<open>App\<close> component (its \<open>useState\<close> cells that the scan logic reads or
  writes), with the log of outside calls. The splash flag and the cursor of the scanning
  text are display only.
\<close>

record App =
  view :: ViewState
  status :: AnalysisStatus
  currentFile :: "FileData option"
  currentResult :: "AnalysisResult option"
  batchQueue :: "File list"
  batchResults :: "BatchAnalysisResult list"
  batchProgress :: nat
  history :: "HistoryItem list"
  effects :: "effect list"


section \<open>Strings and untyped values\<close>

definition startsWith :: "string \<Rightarrow> string \<Rightarrow> bool" where
  "startsWith s p = (take (length p) s = p)"

fun includes' :: "string \<Rightarrow> string \<Rightarrow> bool" where
  "includes' [] p = (p = [])"
| "includes' (c # cs) p = (startsWith (c # cs) p \<or> includes' cs p)"

fun truthy :: "jsval \<Rightarrow> bool" where
  "truthy JUndefined = False"
| "truthy JNull = False"
| "truthy (JBool b) = b"
| "truthy (JNum n) = (n \<noteq> 0)"
| "truthy JNaN = False"
| "truthy (JStr s) = (s \<noteq> [])"
| "truthy (JArr xs) = True"
| "truthy (JObj kvs) = True"

text \<open>\<open>a || b\<close>\<close>

definition jsOr :: "jsval \<Rightarrow> jsval \<Rightarrow> jsval" where
  "jsOr a b = (if truthy a then a else b)"

text \<open>\<open>typeof v === 'number'\<close>\<close>

fun isNumber :: "jsval \<Rightarrow> bool" where
  "isNumber (JNum n) = True"
| "isNumber JNaN = True"
| "isNumber v = False"

text \<open>
  \<open>v.k\<close> for one of the property names the program reads; reading a property of
  \<open>null\<close> or \<open>undefined\<close> throws and is excluded by the callers.
\<close>

fun getProp :: "jsval \<Rightarrow> string \<Rightarrow> jsval" where
  "getProp (JObj kvs) k = (case map_of kvs k of None \<Rightarrow> JUndefined | Some v \<Rightarrow> v)"
| "getProp v k = JUndefined"

fun nullish :: "jsval \<Rightarrow> bool" where
  "nullish JUndefined = True"
| "nullish JNull = True"
| "nullish v = False"


section \<open>Media preprocessor (services/geminiService.ts)\<close>

definition MAX_WIDTH :: rat where
  "MAX_WIDTH = 1024"

definition MAX_HEIGHT :: rat where
  "MAX_HEIGHT = 1024"

text \<open>
  The width and height computed in \<open>img.onload\<close>. Each arithmetic operation is rounded
  by \<open>rnd\<close>; the height is scaled with the width the image had before it is capped.
\<close>

definition scaleToFit :: "(rat \<Rightarrow> rat) \<Rightarrow> rat \<Rightarrow> rat \<Rightarrow> rat \<times> rat" where
  "scaleToFit rnd width height =
     (if width > height then
        (if width > MAX_WIDTH then (MAX_WIDTH, rnd (height * rnd (MAX_WIDTH / width)))
         else (width, height))
      else
        (if height > MAX_HEIGHT then (rnd (width * rnd (MAX_HEIGHT / height)), MAX_HEIGHT)
         else (width, height)))"

text \<open>
  Assigning a number to \<open>canvas.width\<close> or \<open>canvas.height\<close> converts it to an unsigned
  long: the fraction is dropped and the integer is taken modulo \<open>2 ^ 32\<close>. The numbers
  assigned here never exceed 1024 when the rounding is accurate (lemma \<open>scaled_dim\<close>).
\<close>

definition toUnsignedLong :: "rat \<Rightarrow> nat" where
  "toUnsignedLong x = nat ((if x < 0 then \<lceil>x\<rceil> else \<lfloor>x\<rfloor>) mod 2 ^ 32)"

definition canvasSize :: "(rat \<Rightarrow> rat) \<Rightarrow> nat \<Rightarrow> nat \<Rightarrow> nat \<times> nat" where
  "canvasSize rnd imgw imgh =
     (let (width, height) = scaleToFit rnd (of_nat imgw) (of_nat imgh)
      in (toUnsignedLong width, toUnsignedLong height))"

definition JPEG_QUALITY :: rat where
  "JPEG_QUALITY = 85 / 100"

definition optimizeImageForMobile :: "env \<Rightarrow> File \<Rightarrow> error + (string \<times> string)" where
  "optimizeImageForMobile e f =
     (case readAsDataURL e f of
        None \<Rightarrow> Inl Other
      | Some dataUrl \<Rightarrow>
          (case imageLoad e f of
             None \<Rightarrow> Inl (Error ''Image processing failed: [object Event]'')
           | Some (imgw, imgh) \<Rightarrow>
               (let (cw, ch) = canvasSize (fl e) (unat imgw) (unat imgh)
                in if \<not> getContext e cw ch then Inl (Error ''Canvas context failed'')
                   else Inr (toDataURL e f cw ch ''image/jpeg'' JPEG_QUALITY, ''image/jpeg''))))"

definition fileToBase64 :: "env \<Rightarrow> File \<Rightarrow> error + string" where
  "fileToBase64 e f =
     (if startsWith (type f) ''image/'' then
        (case optimizeImageForMobile e f of
           Inr optimized \<Rightarrow> Inr (fst optimized)
         | Inl err \<Rightarrow>
             (case readAsDataURL e f of Some raw \<Rightarrow> Inr raw | None \<Rightarrow> Inl Other))
      else
        (case readAsDataURL e f of Some raw \<Rightarrow> Inr raw | None \<Rightarrow> Inl Other))"


section \<open>Analysis request client (services/geminiService.ts)\<close>

text \<open>
  \<open>{...data, timestamp}\<close> read at the properties of \<open>AnalysisResult\<close>. In
  \<open>analyzeContent\<close> the message of the error that \<open>JSON.parse\<close> throws is the engine's; a
  missing API key or a failed request is an error answer of \<open>generateContent\<close>.
\<close>

definition stamp :: "jsval \<Rightarrow> string \<Rightarrow> AnalysisResult" where
  "stamp d ts =
     \<lparr> isAI = getProp d ''isAI'', score = getProp d ''score'', verdict = getProp d ''verdict'',
       reasoning = getProp d ''reasoning'', technicalDetails = getProp d ''technicalDetails'',
       modelSignature = getProp d ''modelSignature'',
       forensicMetrics = getProp d ''forensicMetrics'',
       humanPerception = getProp d ''humanPerception'',
       suspiciousRegions = getProp d ''suspiciousRegions'', watermark = getProp d ''watermark'',
       videoAnalysis = getProp d ''videoAnalysis'', timestamp = ts \<rparr>"

definition analyzeContent :: "env \<Rightarrow> string \<Rightarrow> string \<Rightarrow> error + AnalysisResult" where
  "analyzeContent e base64Data mime =
     (case generateContent e base64Data mime of
        Inl err \<Rightarrow> Inl err
      | Inr None \<Rightarrow> Inl (Error ''No response from AI'')
      | Inr (Some txt) \<Rightarrow>
          (if txt = [] then Inl (Error ''No response from AI'')
           else (case JSON_parse e txt of
                   None \<Rightarrow> Inl (Error ''Unexpected token'')
                 | Some d \<Rightarrow> Inr (stamp d (now e)))))"


section \<open>Controller (App.tsx)\<close>

text \<open>\<open>{...result, id, thumbnail}\<close>\<close>

definition historyItem :: "AnalysisResult \<Rightarrow> string \<Rightarrow> string \<Rightarrow> HistoryItem" where
  "historyItem r uuid thumb =
     \<lparr> isAI = isAI r, score = score r, verdict = verdict r, reasoning = reasoning r,
       technicalDetails = technicalDetails r, modelSignature = modelSignature r,
       forensicMetrics = forensicMetrics r, humanPerception = humanPerception r,
       suspiciousRegions = suspiciousRegions r, watermark = watermark r,
       videoAnalysis = videoAnalysis r, timestamp = timestamp r,
       id' = uuid, thumbnail = thumb \<rparr>"

text \<open>The MIME type sent with the payload, as both scan paths compute it.\<close>

definition effectiveMimeType :: "File \<Rightarrow> string" where
  "effectiveMimeType f = (if startsWith (type f) ''image/'' then ''image/jpeg'' else type f)"

subsection \<open>Native bridge: \<open>window.handleResult\<close>\<close>

text \<open>The object built when \<open>JSON.parse\<close> throws.\<close>

definition keywordVerdict :: "env \<Rightarrow> string \<Rightarrow> jsval" where
  "keywordVerdict e str =
     (let ai = (includes' (toLowerCase e str) ''ai''
                \<or> includes' (toLowerCase e str) ''synthetic'')
      in JObj [(''isAI'', JBool ai),
               (''score'', JNum (if ai then 95 else 5)),
               (''verdict'', JStr (if ai then ''SYNTHETIC DETECTED'' else ''AUTHENTIC MEDIA''))])"

definition parseInput :: "env \<Rightarrow> jsval \<Rightarrow> jsval" where
  "parseInput e res =
     (case res of
        JStr str \<Rightarrow> (case JSON_parse e str of Some d \<Rightarrow> d | None \<Rightarrow> keywordVerdict e str)
      | _ \<Rightarrow> res)"

text \<open>
  \<open>mappedResult\<close>. Reading \<open>parsedData.isAI\<close> throws when the data is \<open>null\<close> or
  \<open>undefined\<close>; the enclosing \<open>try\<close> then skips every state update (\<open>None\<close>).
\<close>

definition mappedResult :: "jsval \<Rightarrow> string \<Rightarrow> AnalysisResult option" where
  "mappedResult parsedData ts =
     (if nullish parsedData then None
      else Some
        \<lparr> isAI = jsOr (getProp parsedData ''isAI'') (JBool False),
          score = (if isNumber (getProp parsedData ''score'') then getProp parsedData ''score''
                   else (if truthy (getProp parsedData ''isAI'') then JNum 98 else JNum 2)),
          verdict = jsOr (getProp parsedData ''verdict'')
                      (if truthy (getProp parsedData ''isAI'') then JStr ''SYNTHETIC DETECTED''
                       else JStr ''AUTHENTIC''),
          reasoning = jsOr (getProp parsedData ''reasoning'')
                        (JStr ''Analysis provided by iOS Neural Engine Bridge.''),
          technicalDetails = jsOr (getProp parsedData ''technicalDetails'')
                        (JArr [JStr ''External verification complete'',
                               JStr ''Bridge data integrity: OK'']),
          modelSignature = jsOr (getProp parsedData ''modelSignature'')
                        (JObj [(''name'', JStr ''External Model''), (''confidence'', JNum 0)]),
          forensicMetrics = jsOr (getProp parsedData ''forensicMetrics'')
                        (JObj [(''biometricIntegrity'', JNum 50), (''textureFidelity'', JNum 50),
                               (''lightingConsistency'', JNum 50), (''physicalLogic'', JNum 50)]),
          humanPerception = jsOr (getProp parsedData ''humanPerception'')
                        (JObj [(''realnessScore'', JNum 50), (''suspiciousnessScore'', JNum 50),
                               (''perceptualInconsistency'', JNum 0), (''artifactLevel'', JNum 0)]),
          suspiciousRegions = jsOr (getProp parsedData ''suspiciousRegions'') (JArr []),
          watermark = jsOr (getProp parsedData ''watermark'')
                        (JObj [(''detected'', JBool False), (''signatures'', JArr [])]),
          videoAnalysis = JUndefined,
          timestamp = ts \<rparr>)"

definition placeholderFile :: FileData where
  "placeholderFile =
     \<lparr> file' = None, previewUrl = [], mimeType = ''application/octet-stream'', base64 = [] \<rparr>"

definition handleResult :: "env \<Rightarrow> jsval \<Rightarrow> App \<Rightarrow> App" where
  "handleResult e res s =
     (let s0 = (if hasOriginalHandleResult e
                then s\<lparr>effects := effects s @ [OriginalHandleResult res]\<rparr> else s)
      in case mappedResult (parseInput e res) (now e) of
           None \<Rightarrow> s0
         | Some r \<Rightarrow>
             s0\<lparr> currentFile :=
                   (case currentFile s0 of None \<Rightarrow> Some placeholderFile | Some fd \<Rightarrow> Some fd),
                 currentResult := Some r,
                 status := COMPLETE,
                 view := RESULT,
                 history := historyItem r (randomUUID e) [] # history s0 \<rparr>)"

subsection \<open>Batch job runner: the effect on \<open>[view, batchQueue]\<close>\<close>

text \<open>One run of \<open>processQueue\<close>: the head of the queue, failed or not, leaves the queue.\<close>

definition processQueue :: "env \<Rightarrow> App \<Rightarrow> App" where
  "processQueue e s =
     (case batchQueue s of
        [] \<Rightarrow> s
      | f # remaining \<Rightarrow>
          if view s \<noteq> BATCH_PROCESSING then s
          else
            (let s1 = s\<lparr>effects := effects s @ [Preprocess f]\<rparr>;
                 s2 = (case fileToBase64 e f of
                         Inl err \<Rightarrow> s1
                       | Inr b64 \<Rightarrow>
                           (let url = createObjectURL e f;
                                mime = effectiveMimeType f;
                                s1' = s1\<lparr>effects := effects s1 @ [Analyze b64 mime]\<rparr>
                            in case analyzeContent e b64 mime of
                                 Inl err \<Rightarrow> s1'
                               | Inr r \<Rightarrow>
                                   s1'\<lparr> batchResults := batchResults s1' @
                                          [\<lparr>fileName = name f, result = r, thumbnail' = url\<rparr>],
                                        history := historyItem r (randomUUID e) url
                                                     # history s1' \<rparr>));
                 s3 = s2\<lparr>batchQueue := remaining, batchProgress := batchProgress s2 + 1\<rparr>
             in if length remaining = 0
                then s3\<lparr>view := BATCH_RESULT, status := COMPLETE\<rparr> else s3))"

text \<open>
  The effect runs again after every change of the queue, as long as the view is the batch
  view and the queue is not empty; \<open>w n\<close> is what the browser and the service answer
  during the \<open>n\<close>-th run.
\<close>

function runBatch :: "(nat \<Rightarrow> env) \<Rightarrow> nat \<Rightarrow> App \<Rightarrow> App" where
  "runBatch w n s =
     (if view s = BATCH_PROCESSING \<and> length (batchQueue s) > 0
      then runBatch w (Suc n) (processQueue (w n) s) else s)"
  by pat_completeness auto
termination
proof (relation "measure (\<lambda>(w, n, s). length (batchQueue s))")
  show "wf (measure (\<lambda>(w, n, s). length (batchQueue s)))"
    by simp
next
  fix w :: "nat \<Rightarrow> env" and n :: nat and s :: App
  assume a: "view s = BATCH_PROCESSING \<and> 0 < length (batchQueue s)"
  then obtain f remaining where q: "batchQueue s = f # remaining"
    by (cases "batchQueue s") auto
  have "batchQueue (processQueue (w n) s) = remaining"
    using a q by (simp add: processQueue_def Let_def split: sum.splits)
  then show "((w, Suc n, processQueue (w n) s), (w, n, s))
               \<in> measure (\<lambda>(w, n, s). length (batchQueue s))"
    using q by simp
qed

declare runBatch.simps [simp del]

subsection \<open>\<open>handleScanStart\<close> and \<open>resetScanner\<close>\<close>

text \<open>The single-file path up to its first \<open>await\<close>.\<close>

definition scanEnter :: "env \<Rightarrow> File \<Rightarrow> App \<Rightarrow> App" where
  "scanEnter e f s =
     (let s1 = s\<lparr>status := ANALYZING, view := SCANNING\<rparr>
      in if hasUploadHandler e then s1\<lparr>effects := effects s1 @ [PostMessage ''start'']\<rparr>
         else s1)"

definition alertText :: "error \<Rightarrow> string" where
  "alertText err =
     ''Analysis Error: '' @ (case err of Error msg \<Rightarrow> msg | Other \<Rightarrow> ''Unknown error'')
       @ ''. Try a smaller image.''"

text \<open>The \<open>catch\<close> block of the single-file path.\<close>

definition scanFailed :: "error \<Rightarrow> App \<Rightarrow> App" where
  "scanFailed err s =
     s\<lparr>status := ERROR, effects := effects s @ [Alert (alertText err)], view := HOME\<rparr>"

text \<open>The single-file path from its first \<open>await\<close> to the end of \<open>handleScanStart\<close>.\<close>

definition scanResume :: "env \<Rightarrow> File \<Rightarrow> App \<Rightarrow> App" where
  "scanResume e f s =
     (let url = createObjectURL e f;
          s1 = s\<lparr>effects := effects s @ [Preprocess f]\<rparr>
      in case fileToBase64 e f of
           Inl err \<Rightarrow> scanFailed err s1
         | Inr b64 \<Rightarrow>
             (let mime = effectiveMimeType f;
                  s2 = s1\<lparr> currentFile :=
                             Some \<lparr>file' = Some f, previewUrl = url, mimeType = mime, base64 = b64\<rparr>,
                           effects := effects s1 @ [Analyze b64 mime] \<rparr>
              in case analyzeContent e b64 mime of
                   Inl err \<Rightarrow> scanFailed err s2
                 | Inr r \<Rightarrow>
                     s2\<lparr> currentResult := Some r,
                         history := historyItem r (randomUUID e) url # history s2,
                         status := COMPLETE,
                         view := RESULT \<rparr>))"

text \<open>The state in which \<open>handleScanStart\<close> first gives control back.\<close>

definition handleScanStart_enter :: "env \<Rightarrow> File list \<Rightarrow> App \<Rightarrow> App" where
  "handleScanStart_enter e files s =
     (case files of
        [] \<Rightarrow> s
      | [f] \<Rightarrow> scanEnter e f s
      | _ \<Rightarrow> s\<lparr> batchQueue := files, batchResults := [], batchProgress := 0,
                view := BATCH_PROCESSING, status := ANALYZING \<rparr>)"

text \<open>The state when the promise of \<open>handleScanStart\<close> settles.\<close>

definition handleScanStart :: "env \<Rightarrow> File list \<Rightarrow> App \<Rightarrow> App" where
  "handleScanStart e files s =
     (case files of
        [] \<Rightarrow> s
      | [f] \<Rightarrow> scanResume e f (scanEnter e f s)
      | _ \<Rightarrow> s\<lparr> batchQueue := files, batchResults := [], batchProgress := 0,
                view := BATCH_PROCESSING, status := ANALYZING \<rparr>)"

definition resetScanner :: "App \<Rightarrow> App" where
  "resetScanner s =
     s\<lparr> currentFile := None, currentResult := None, batchQueue := [], batchResults := [],
        status := IDLE, view := HOME \<rparr>"

subsection \<open>The recent-logs list (components/Dashboard.tsx)\<close>

text \<open>\<open>history.slice().reverse()\<close>; an empty history shows a placeholder instead.\<close>

definition recentLogs :: "HistoryItem list \<Rightarrow> HistoryItem list option" where
  "recentLogs h = (if length h = 0 then None else Some (rev h))"

subsection \<open>Everything that can happen to the controller\<close>

datatype event =
    ScanStart "File list"
  | BatchStep
  | HandleResult jsval
  | Reset
  | Navigate ViewState

text \<open>One event, with what the browser and the service answer while it is handled.\<close>

fun dispatch :: "env \<Rightarrow> App \<Rightarrow> event \<Rightarrow> App" where
  "dispatch e s (ScanStart files) = handleScanStart e files s"
| "dispatch e s BatchStep = processQueue e s"
| "dispatch e s (HandleResult res) = handleResult e res s"
| "dispatch e s Reset = resetScanner s"
| "dispatch e s (Navigate v) = s\<lparr>view := v\<rparr>"

fun run :: "(nat \<Rightarrow> env) \<Rightarrow> nat \<Rightarrow> App \<Rightarrow> event list \<Rightarrow> App" where
  "run w n s [] = s"
| "run w n s (ev # evs) = run w (Suc n) (dispatch (w n) s ev) evs"


section \<open>Observations used to state the properties\<close>

text \<open>The files handed to the preprocessor, and the alerts shown, in order.\<close>

fun preprocessCalls :: "effect list \<Rightarrow> File list" where
  "preprocessCalls [] = []"
| "preprocessCalls (Preprocess f # es) = f # preprocessCalls es"
| "preprocessCalls (x # es) = preprocessCalls es"

fun alerts :: "effect list \<Rightarrow> string list" where
  "alerts [] = []"
| "alerts (Alert msg # es) = msg # alerts es"
| "alerts (x # es) = alerts es"

fun requests :: "effect list \<Rightarrow> (string \<times> string) list" where
  "requests [] = []"
| "requests (Analyze b64 mime # es) = (b64, mime) # requests es"
| "requests (x # es) = requests es"

text \<open>One scan: preprocessing, then the request with the effective MIME type.\<close>

definition scanOutcome :: "env \<Rightarrow> File \<Rightarrow> error + AnalysisResult" where
  "scanOutcome e f =
     (case fileToBase64 e f of
        Inl err \<Rightarrow> Inl err
      | Inr b64 \<Rightarrow> analyzeContent e b64 (effectiveMimeType f))"

text \<open>
  The number of files of a batch whose scan fails, when the first file is scanned under
  \<open>w n\<close>, the second under \<open>w (n + 1)\<close>, and so on.
\<close>

fun failures :: "(nat \<Rightarrow> env) \<Rightarrow> nat \<Rightarrow> File list \<Rightarrow> nat" where
  "failures w n [] = 0"
| "failures w n (f # fs) = (if isl (scanOutcome (w n) f) then 1 else 0) + failures w (Suc n) fs"

text \<open>
  The outside calls of a whole batch, file by file: the preprocessing of each file, and
  the request for each file whose preprocessing succeeds.
\<close>

fun batchEffects :: "(nat \<Rightarrow> env) \<Rightarrow> nat \<Rightarrow> File list \<Rightarrow> effect list" where
  "batchEffects w n [] = []"
| "batchEffects w n (f # fs) =
     Preprocess f #
     (case fileToBase64 (w n) f of
        Inl err \<Rightarrow> []
      | Inr pl \<Rightarrow> [Analyze pl (effectiveMimeType f)])
     @ batchEffects w (Suc n) fs"

text \<open>The number of files of a batch whose preprocessing fails.\<close>

fun preprocessFailures :: "(nat \<Rightarrow> env) \<Rightarrow> nat \<Rightarrow> File list \<Rightarrow> nat" where
  "preprocessFailures w n [] = 0"
| "preprocessFailures w n (f # fs) =
     (if isl (fileToBase64 (w n) f) then 1 else 0) + preprocessFailures w (Suc n) fs"

text \<open>
  The batch results and the history items of the files of a batch whose scan succeeds,
  in input order.
\<close>

fun batchOutcomes :: "(nat \<Rightarrow> env) \<Rightarrow> nat \<Rightarrow> File list \<Rightarrow> BatchAnalysisResult list" where
  "batchOutcomes w n [] = []"
| "batchOutcomes w n (f # fs) =
     (case scanOutcome (w n) f of
        Inl err \<Rightarrow> []
      | Inr r \<Rightarrow> [\<lparr>fileName = name f, result = r, thumbnail' = createObjectURL (w n) f\<rparr>])
     @ batchOutcomes w (Suc n) fs"

fun batchItems :: "(nat \<Rightarrow> env) \<Rightarrow> nat \<Rightarrow> File list \<Rightarrow> HistoryItem list" where
  "batchItems w n [] = []"
| "batchItems w n (f # fs) =
     (case scanOutcome (w n) f of
        Inl err \<Rightarrow> []
      | Inr r \<Rightarrow> [historyItem r (randomUUID (w n)) (createObjectURL (w n) f)])
     @ batchItems w (Suc n) fs"

text \<open>
  Modelled from the spec's words "case-insensitive substring match": the needle occurs in
  the string at some position, each character equal to the needle's up to the case of
  the letters A to Z.
\<close>

definition sameLetter :: "char \<Rightarrow> char \<Rightarrow> bool" where
  "sameLetter c d =
     (c = d
      \<or> (c, d) \<in> set (zip ''ABCDEFGHIJKLMNOPQRSTUVWXYZ'' ''abcdefghijklmnopqrstuvwxyz'')
      \<or> (d, c) \<in> set (zip ''ABCDEFGHIJKLMNOPQRSTUVWXYZ'' ''abcdefghijklmnopqrstuvwxyz''))"

fun startsWithIgnoringCase :: "string \<Rightarrow> string \<Rightarrow> bool" where
  "startsWithIgnoringCase s [] = True"
| "startsWithIgnoringCase [] (d # p) = False"
| "startsWithIgnoringCase (c # s) (d # p) = (sameLetter c d \<and> startsWithIgnoringCase s p)"

fun containsIgnoringCase :: "string \<Rightarrow> string \<Rightarrow> bool" where
  "containsIgnoringCase [] p = (p = [])"
| "containsIgnoringCase (c # cs) p =
     (startsWithIgnoringCase (c # cs) p \<or> containsIgnoringCase cs p)"

text \<open>
  The lower-case form of the letters A to Z, every other byte kept: what the engine's
  lower-casing does to a string of ASCII characters.
\<close>

definition asciiLower :: "char \<Rightarrow> char" where
  "asciiLower c =
     (case map_of (zip ''ABCDEFGHIJKLMNOPQRSTUVWXYZ'' ''abcdefghijklmnopqrstuvwxyz'') c of
        None \<Rightarrow> c
      | Some l \<Rightarrow> l)"

text \<open>The state the component mounts with.\<close>

definition initialApp :: App where
  "initialApp =
     \<lparr> view = HOME, status = IDLE, currentFile = None, currentResult = None,
       batchQueue = [], batchResults = [], batchProgress = 0, history = [], effects = [] \<rparr>"

section \<open>Example inputs\<close>

text \<open>
  A browser that decodes every image as 2048 by 1536, except a small one as 640 by 480
  and one whose bytes are damaged not at all, computes exactly, lower-cases
  \<open>A\<close> followed by U+0130 to \<open>ai\<close> followed by U+0307 and every other string letter by
  letter, and a service that answers an empty object but rejects the damaged
  bytes.
\<close>

definition browser0 :: env where
  "browser0 =
     \<lparr> readAsDataURL = (\<lambda>f. Some (bytes f)),
       imageLoad = (\<lambda>f. if bytes f = ''damaged'' then None
                        else if bytes f = ''small'' then Some (640, 480) else Some (2048, 1536)),
       fl = (\<lambda>x. x),
       getContext = (\<lambda>w h. True),
       toDataURL = (\<lambda>f w h fmt q. ''jpeg-of-'' @ bytes f),
       generateContent = (\<lambda>b64 mime. if b64 = ''damaged'' then Inl (Error ''Unable to process input image'')
                                   else Inr (Some ''{}'')),
       JSON_parse = (\<lambda>txt. if txt = ''{}'' then Some (JObj []) else None),
       toLowerCase = (\<lambda>str. if str = [CHR ''A'', CHR 0xC4, CHR 0xB0]
                             then [CHR ''a'', CHR ''i'', CHR 0xCC, CHR 0x87]
                             else map asciiLower str),
       now = ''2025-01-01T00:00:00.000Z'',
       randomUUID = ''uuid-1'',
       createObjectURL = (\<lambda>f. ''blob:'' @ name f),
       hasUploadHandler = False,
       hasOriginalHandleResult = False \<rparr>"

definition photo :: File where
  "photo = \<lparr> name = ''photo.png'', type = ''image/png'', bytes = ''pixels'' \<rparr>"

definition damaged :: File where
  "damaged = \<lparr> name = ''broken.png'', type = ''image/png'', bytes = ''damaged'' \<rparr>"

definition icon :: File where
  "icon = \<lparr> name = ''icon.gif'', type = ''image/gif'', bytes = ''small'' \<rparr>"

definition clip :: File where
  "clip = \<lparr> name = ''clip.mp4'', type = ''video/mp4'', bytes = ''frames'' \<rparr>"

text \<open>A file that the reader cannot read, and a browser in which it is so.\<close>

definition unreadable :: File where
  "unreadable = \<lparr> name = ''gone.mp4'', type = ''video/mp4'', bytes = ''unreadable'' \<rparr>"

definition browser1 :: env where
  "browser1 =
     browser0\<lparr>readAsDataURL := (\<lambda>f. if bytes f = ''unreadable'' then None else Some (bytes f))\<rparr>"

text \<open>A ledger entry from an earlier scan.\<close>

definition earlier :: HistoryItem where
  "earlier = historyItem (stamp (JObj [(''isAI'', JBool True)]) ''2024-12-31T00:00:00.000Z'')
               ''uuid-0'' ''blob:old''"

text \<open>The controller after that scan, back on the home screen.\<close>

definition withEarlier :: App where
  "withEarlier = initialApp\<lparr>history := [earlier]\<rparr>"


section \<open>Helper lemmas\<close>

subsection \<open>The scan paths and the batch runner\<close>

lemma preprocessCalls_append:
  "preprocessCalls (xs @ ys) = preprocessCalls xs @ preprocessCalls ys"
  by (induction xs rule: preprocessCalls.induct) simp_all

lemma alerts_append: "alerts (xs @ ys) = alerts xs @ alerts ys"
  by (induction xs rule: alerts.induct) simp_all

lemma requests_append: "requests (xs @ ys) = requests xs @ requests ys"
  by (induction xs rule: requests.induct) simp_all

lemma scanFailed_fields:
  "view (scanFailed err s) = HOME" "status (scanFailed err s) = ERROR"
  "history (scanFailed err s) = history s" "currentResult (scanFailed err s) = currentResult s"
  "effects (scanFailed err s) = effects s @ [Alert (alertText err)]"
  by (simp_all add: scanFailed_def)

lemma scanEnter_fields:
  "view (scanEnter e f s) = SCANNING" "status (scanEnter e f s) = ANALYZING"
  "history (scanEnter e f s) = history s" "currentResult (scanEnter e f s) = currentResult s"
  "alerts (effects (scanEnter e f s)) = alerts (effects s)"
  "preprocessCalls (effects (scanEnter e f s)) = preprocessCalls (effects s)"
  "requests (effects (scanEnter e f s)) = requests (effects s)"
  by (simp_all add: scanEnter_def Let_def alerts_append preprocessCalls_append requests_append)

text \<open>The single-file path when the scan succeeds, and when it fails.\<close>

lemma scanResume_ok:
  assumes "fileToBase64 e f = Inr b64" "analyzeContent e b64 (effectiveMimeType f) = Inr r"
  shows "history (scanResume e f s) = historyItem r (randomUUID e) (createObjectURL e f) # history s"
    and "currentResult (scanResume e f s) = Some r"
    and "view (scanResume e f s) = RESULT" and "status (scanResume e f s) = COMPLETE"
  using assms by (simp_all add: scanResume_def Let_def)

lemma scanResume_failed:
  assumes "fileToBase64 e f = Inl err \<or>
           (\<exists>b64. fileToBase64 e f = Inr b64 \<and>
                  analyzeContent e b64 (effectiveMimeType f) = Inl err)"
  shows "view (scanResume e f s) = HOME" and "status (scanResume e f s) = ERROR"
    and "history (scanResume e f s) = history s"
    and "currentResult (scanResume e f s) = currentResult s"
    and "alerts (effects (scanResume e f s)) = alerts (effects s) @ [alertText err]"
  using assms by (auto simp: scanResume_def Let_def scanFailed_def alerts_append)

text \<open>One run of the batch effect on a non-empty queue in the batch view.\<close>

lemma processQueue_step:
  assumes "view s = BATCH_PROCESSING" "batchQueue s = f # remaining"
  shows "batchQueue (processQueue e s) = remaining"
    and "batchProgress (processQueue e s) = Suc (batchProgress s)"
    and "view (processQueue e s) = (if remaining = [] then BATCH_RESULT else BATCH_PROCESSING)"
    and "status (processQueue e s) = (if remaining = [] then COMPLETE else status s)"
    and "preprocessCalls (effects (processQueue e s)) = preprocessCalls (effects s) @ [f]"
    and "length (batchResults (processQueue e s)) =
           length (batchResults s) + (if isl (scanOutcome e f) then 0 else 1)"
    and "length (history (processQueue e s)) =
           length (history s) + (if isl (scanOutcome e f) then 0 else 1)"
  using assms
  by (simp_all add: processQueue_def scanOutcome_def Let_def preprocessCalls_append
      split: sum.splits)

lemma processQueue_ok:
  assumes "view s = BATCH_PROCESSING" "batchQueue s = f # remaining"
    and "fileToBase64 e f = Inr b64" "analyzeContent e b64 (effectiveMimeType f) = Inr r"
  shows "history (processQueue e s) =
           historyItem r (randomUUID e) (createObjectURL e f) # history s"
    and "batchResults (processQueue e s) =
           batchResults s @ [\<lparr>fileName = name f, result = r, thumbnail' = createObjectURL e f\<rparr>]"
  using assms by (simp_all add: processQueue_def Let_def)

lemma processQueue_history_suffix: "suffix (history s) (history (processQueue e s))"
  by (cases "batchQueue s"; cases "view s = BATCH_PROCESSING")
     (auto simp: processQueue_def Let_def suffix_Cons split: sum.splits)

lemma handleResult_history_suffix: "suffix (history s) (history (handleResult e res s))"
  by (auto simp: handleResult_def Let_def suffix_Cons split: option.splits)

lemma handleScanStart_history_suffix: "suffix (history s) (history (handleScanStart e files s))"
proof (cases files)
  case Nil
  then show ?thesis by (simp add: handleScanStart_def)
next
  case (Cons f fs)
  show ?thesis
  proof (cases fs)
    case Nil
    then show ?thesis using Cons
      by (cases "fileToBase64 e f")
         (auto simp: handleScanStart_def scanResume_def scanFailed_def scanEnter_def Let_def
                     suffix_Cons split: sum.splits)
  next
    case (Cons g gs)
    then show ?thesis using \<open>files = f # fs\<close> by (simp add: handleScanStart_def)
  qed
qed

lemma dispatch_history_suffix: "suffix (history s) (history (dispatch e s ev))"
  by (cases ev)
     (simp_all add: handleScanStart_history_suffix processQueue_history_suffix
        handleResult_history_suffix resetScanner_def)

lemma run_history_suffix: "suffix (history s) (history (run w n s evs))"
proof (induction evs arbitrary: s n)
  case Nil
  show ?case by simp
next
  case (Cons ev evs)
  have "suffix (history s) (history (dispatch (w n) s ev))"
    by (rule dispatch_history_suffix)
  moreover have "suffix (history (dispatch (w n) s ev)) (history (run w (Suc n) (dispatch (w n) s ev) evs))"
    by (rule Cons.IH)
  ultimately show ?case by (auto intro: suffix_order.trans)
qed

lemma failures_le: "failures w n fs \<le> length fs"
proof (induction fs arbitrary: n)
  case Nil
  show ?case by simp
next
  case (Cons f fs)
  have "failures w (Suc n) fs \<le> length fs" by (rule Cons.IH)
  then show ?case by simp
qed

text \<open>What one run of the batch effect adds, exactly.\<close>

lemma processQueue_exact:
  assumes "view s = BATCH_PROCESSING" "batchQueue s = f # remaining"
  shows "effects (processQueue e s) =
           effects s @ Preprocess f #
             (case fileToBase64 e f of
                Inl err \<Rightarrow> []
              | Inr pl \<Rightarrow> [Analyze pl (effectiveMimeType f)])"
    and "batchResults (processQueue e s) =
           batchResults s @
             (case scanOutcome e f of
                Inl err \<Rightarrow> []
              | Inr r \<Rightarrow> [\<lparr>fileName = name f, result = r, thumbnail' = createObjectURL e f\<rparr>])"
    and "history (processQueue e s) =
           (case scanOutcome e f of
              Inl err \<Rightarrow> []
            | Inr r \<Rightarrow> [historyItem r (randomUUID e) (createObjectURL e f)])
           @ history s"
  using assms
  by (simp_all add: processQueue_def scanOutcome_def Let_def split: sum.splits)

lemma batchEffects_preprocessCalls: "preprocessCalls (batchEffects w n fs) = fs"
  by (induction fs arbitrary: n) (simp_all add: preprocessCalls_append split: sum.splits)

lemma batchEffects_requests:
  "length (requests (batchEffects w n fs)) + preprocessFailures w n fs = length fs"
  by (induction fs arbitrary: n) (simp_all add: requests_append split: sum.splits)

lemma preprocessFailures_le: "preprocessFailures w n fs \<le> failures w n fs"
proof (induction fs arbitrary: n)
  case Nil
  show ?case by simp
next
  case (Cons f fs)
  have "preprocessFailures w (Suc n) fs \<le> failures w (Suc n) fs" by (rule Cons.IH)
  then show ?case by (simp add: scanOutcome_def split: sum.splits)
qed

lemma batchOutcomes_length: "length (batchOutcomes w n fs) + failures w n fs = length fs"
  by (induction fs arbitrary: n) (simp_all split: sum.splits)

lemma batchItems_length: "length (batchItems w n fs) + failures w n fs = length fs"
  by (induction fs arbitrary: n) (simp_all split: sum.splits)

lemma runBatch_exact:
  assumes "view s = BATCH_PROCESSING" "batchQueue s = q"
  shows "effects (runBatch w n s) = effects s @ batchEffects w n q
         \<and> batchResults (runBatch w n s) = batchResults s @ batchOutcomes w n q
         \<and> history (runBatch w n s) = rev (batchItems w n q) @ history s"
  using assms
proof (induction q arbitrary: s n)
  case Nil
  then have "runBatch w n s = s" by (subst runBatch.simps) simp
  then show ?case by simp
next
  case (Cons f remaining)
  let ?s1 = "processQueue (w n) s"
  note step = processQueue_step [OF Cons.prems(1) Cons.prems(2), of "w n"]
  note exact = processQueue_exact [OF Cons.prems(1) Cons.prems(2), of "w n"]
  have unfold: "runBatch w n s = runBatch w (Suc n) ?s1"
    using Cons.prems by (subst runBatch.simps) simp
  show ?case
  proof (cases "remaining = []")
    case True
    have stop: "runBatch w (Suc n) ?s1 = ?s1"
      using step(3) True by (subst runBatch.simps) simp
    show ?thesis
      unfolding unfold stop using exact True
      by (cases "scanOutcome (w n) f") simp_all
  next
    case False
    have v: "view ?s1 = BATCH_PROCESSING" and q: "batchQueue ?s1 = remaining"
      using step(1,3) False by simp_all
    note ih = Cons.IH [OF v q, of "Suc n"]
    show ?thesis
      unfolding unfold using ih exact
      by (cases "scanOutcome (w n) f") simp_all
  qed
qed

text \<open>The batch runner from any state in the batch view.\<close>

lemma runBatch_drains:
  assumes "view s = BATCH_PROCESSING" "batchQueue s = q"
  shows "preprocessCalls (effects (runBatch w n s)) = preprocessCalls (effects s) @ q
         \<and> batchProgress (runBatch w n s) = batchProgress s + length q
         \<and> length (batchResults (runBatch w n s))
             = length (batchResults s) + (length q - failures w n q)
         \<and> length (history (runBatch w n s))
             = length (history s) + (length q - failures w n q)
         \<and> batchQueue (runBatch w n s) = []
         \<and> (q \<noteq> [] \<longrightarrow> view (runBatch w n s) = BATCH_RESULT \<and> status (runBatch w n s) = COMPLETE)"
  using assms
proof (induction q arbitrary: s n)
  case Nil
  then have "runBatch w n s = s" by (subst runBatch.simps) simp
  then show ?case using Nil by simp
next
  case (Cons f remaining)
  let ?s1 = "processQueue (w n) s"
  note step = processQueue_step [OF Cons.prems(1) Cons.prems(2), of "w n"]
  have unfold: "runBatch w n s = runBatch w (Suc n) ?s1"
    using Cons.prems by (subst runBatch.simps) simp
  have le: "failures w (Suc n) remaining \<le> length remaining"
    by (rule failures_le)
  show ?case
  proof (cases "remaining = []")
    case True
    have stop: "runBatch w (Suc n) ?s1 = ?s1"
      using step(3) True by (subst runBatch.simps) simp
    show ?thesis
      unfolding unfold stop using step True by simp
  next
    case False
    have v: "view ?s1 = BATCH_PROCESSING" and q: "batchQueue ?s1 = remaining"
      using step(1,3) False by simp_all
    note ih = Cons.IH [OF v q, of "Suc n"]
    show ?thesis
      unfolding unfold using ih step(2,5,6,7) le False by auto
  qed
qed

subsection \<open>The size of the canvas\<close>

text \<open>The rounded quotient and product stay close to the exact scaled dimension.\<close>

lemma scaled_close:
  fixes rnd :: "rat \<Rightarrow> rat" and a m :: nat
  assumes R: "\<forall>x. x = 0 \<or> (1 / 2 ^ 23 \<le> x \<and> x \<le> 2048) \<longrightarrow> \<bar>rnd x - x\<bar> \<le> x / 2 ^ 53"
    and am: "a \<le> m" and m1: "1024 < m" and m2: "m < 2 ^ 32"
  shows "\<bar>rnd (of_nat a * rnd (1024 / of_nat m)) - of_nat a * 1024 / of_nat m\<bar> \<le> 3 / 2 ^ 43
         \<and> 0 \<le> rnd (of_nat a * rnd (1024 / of_nat m))"
proof -
  define u :: rat where "u = 1 / 2 ^ 53"
  define q :: rat where "q = 1024 / of_nat m"
  define r where "r = rnd q"
  define p where "p = of_nat a * r"
  define E :: rat where "E = of_nat a * q"
  have u: "0 < u" "u \<le> 1" by (simp_all add: u_def)
  have mpos: "(0::rat) < of_nat m" using m1 by simp
  have m_lt: "(of_nat m :: rat) < 2 ^ 32"
    using m2 by (metis of_nat_less_iff of_nat_numeral of_nat_power)
  have m_gt: "(1024::rat) < of_nat m"
    using m1 by (metis of_nat_less_iff of_nat_numeral)
  have q_pos: "0 < q" using mpos by (simp add: q_def)
  have q_lt: "q < 1" using m_gt mpos by (simp add: q_def)
  have q_gt: "1 / 2 ^ 22 < q"
    using m_lt mpos by (simp add: q_def field_simps)
  have rq: "\<bar>r - q\<bar> \<le> q * u"
    using R q_gt q_lt unfolding r_def u_def by auto
  have E0: "0 \<le> E" using q_pos by (simp add: E_def)
  have E_le: "E \<le> 1024"
  proof -
    have "(of_nat a :: rat) \<le> of_nat m" using am by simp
    then have "of_nat a * q \<le> of_nat m * q"
      using q_pos by (simp add: mult_right_mono)
    also have "of_nat m * q = 1024" using mpos by (simp add: q_def)
    finally show ?thesis by (simp add: E_def)
  qed
  have pE: "\<bar>p - E\<bar> \<le> E * u"
  proof -
    have "p - E = of_nat a * (r - q)" by (simp add: p_def E_def algebra_simps)
    then have "\<bar>p - E\<bar> = of_nat a * \<bar>r - q\<bar>" by (simp add: abs_mult)
    also have "\<dots> \<le> of_nat a * (q * u)"
      using rq by (simp add: mult_left_mono)
    finally show ?thesis by (simp add: E_def algebra_simps)
  qed
  have Eu: "E * u \<le> E" using E0 u by (simp add: mult_left_le)
  have p_le: "p \<le> 2 * E" using pE Eu by linarith
  have p_ge: "E - E * u \<le> p" using pE by linarith
  have rp: "\<bar>rnd p - p\<bar> \<le> p * u"
  proof (cases "a = 0")
    case True
    then have "p = 0" by (simp add: p_def)
    then show ?thesis using R by auto
  next
    case False
    then have a1: "(1::rat) \<le> of_nat a" by simp
    have "q * 1 \<le> q * of_nat a" using a1 q_pos by (intro mult_left_mono) simp_all
    then have "q \<le> E" by (simp add: E_def mult.commute)
    then have e22: "1 / 2 ^ 22 \<le> E" using q_gt by linarith
    have "u \<le> 1 / 2" by (simp add: u_def)
    then have "E * u \<le> E * (1 / 2)" using E0 by (rule mult_left_mono)
    then have "E / 2 \<le> p" using p_ge by simp
    moreover have "1 / 2 ^ 23 \<le> E / 2" using e22 by simp
    ultimately have "1 / 2 ^ 23 \<le> p" by (rule order_trans [rotated])
    moreover have "p \<le> 2048" using p_le E_le by linarith
    ultimately show ?thesis using R unfolding u_def by auto
  qed
  have "p * u \<le> 2 * E * u" using p_le u by (simp add: mult_right_mono)
  then have close: "\<bar>rnd p - E\<bar> \<le> 3 * E * u" using rp pE by linarith
  also have "\<dots> \<le> 3 * 1024 * u" using E_le u by simp
  also have "\<dots> = 3 / 2 ^ 43" by (simp add: u_def)
  finally have bound: "\<bar>rnd p - E\<bar> \<le> 3 / 2 ^ 43" .
  have "3 * u \<le> 1" by (simp add: u_def)
  then have "E * (3 * u) \<le> E * 1" using E0 by (rule mult_left_mono)
  then have "3 * E * u \<le> E" by (simp add: mult.assoc mult.left_commute)
  then have "0 \<le> rnd p" using close by linarith
  then show ?thesis using bound by (simp add: p_def r_def q_def E_def)
qed

text \<open>Dropping the fraction of a value that close leaves it within one of the exact value.\<close>

lemma floor_close:
  fixes a m :: nat and x :: rat
  assumes m0: "0 < m" and m2: "m < 2 ^ 32"
    and x: "\<bar>x - of_nat a * 1024 / of_nat m\<bar> \<le> 3 / 2 ^ 43"
  shows "\<bar>of_int \<lfloor>x\<rfloor> - of_nat a * 1024 / of_nat m\<bar> \<le> (1::rat)"
proof -
  define E :: rat where "E = of_nat a * 1024 / of_nat m"
  define t where "t = \<lfloor>x\<rfloor>"
  have mpos: "(0::rat) < of_nat m" using m0 by simp
  have m_lt: "(of_nat m :: rat) < 2 ^ 32"
    using m2 by (metis of_nat_less_iff of_nat_numeral of_nat_power)
  have t1: "of_int t \<le> x" and t2: "x < of_int t + 1"
    using floor_correct [of x] by (simp_all add: t_def)
  define d :: rat where "d = 1 / 2 ^ 32"
  have d: "d \<le> 1" by (simp add: d_def)
  have "\<bar>x - E\<bar> \<le> 3 / 2 ^ 43" using x by (simp add: E_def)
  moreover have "(3::rat) / 2 ^ 43 < d" by (simp add: d_def)
  ultimately have xE: "\<bar>x - E\<bar> < d" by (rule le_less_trans)
  have up: "of_int t - E \<le> 1" using t1 xE d by linarith
  have lo: "E - of_int t \<le> 1"
  proof (rule ccontr)
    assume "\<not> E - of_int t \<le> 1"
    then have "of_int (t + 1) < E" by simp
    then have "of_int (t + 1) * of_nat m < (of_nat a * 1024 :: rat)"
      using mpos by (simp add: E_def field_simps)
    then have "(of_int ((t + 1) * int m) :: rat) < of_int (int a * 1024)"
      by simp
    then have "(t + 1) * int m < int a * 1024"
      by (simp only: of_int_less_iff)
    then have "(t + 1) * int m + 1 \<le> int a * 1024" by simp
    then have "(of_int ((t + 1) * int m + 1) :: rat) \<le> of_int (int a * 1024)"
      by (simp only: of_int_le_iff)
    then have "of_int (t + 1) * of_nat m + 1 \<le> (of_nat a * 1024 :: rat)"
      by simp
    then have "(of_int (t + 1) * of_nat m + 1) / of_nat m \<le> (of_nat a * 1024 :: rat) / of_nat m"
      using mpos by (intro divide_right_mono) simp_all
    moreover have "(of_int (t + 1) * of_nat m + 1) / of_nat m
                     = (of_int (t + 1) + 1 / of_nat m :: rat)"
      using mpos by (simp add: add_divide_distrib)
    ultimately have "of_int (t + 1) + 1 / of_nat m \<le> E"
      by (simp add: E_def)
    moreover have "d < 1 / (of_nat m :: rat)"
      using m_lt mpos by (simp add: d_def field_simps)
    moreover have "of_int (t + 1) = of_int t + (1::rat)" by simp
    ultimately have "x + d < E" using t2 by linarith
    then show False using xE by linarith
  qed
  show ?thesis using up lo by (simp add: E_def t_def abs_le_iff)
qed


lemma toUnsignedLong_of_nat: "n < 2 ^ 32 \<Longrightarrow> toUnsignedLong (of_nat n) = n"
proof -
  assume n: "n < 2 ^ 32"
  have "int n < 2 ^ 32" using n by (metis of_nat_less_iff of_nat_numeral of_nat_power)
  then have "int n mod 2 ^ 32 = int n" by simp
  then show ?thesis by (simp add: toUnsignedLong_def)
qed

text \<open>The scaled dimension as the canvas stores it.\<close>

lemma scaled_dim:
  fixes rnd :: "rat \<Rightarrow> rat" and a m :: nat
  assumes R: "\<forall>x. x = 0 \<or> (1 / 2 ^ 23 \<le> x \<and> x \<le> 2048) \<longrightarrow> \<bar>rnd x - x\<bar> \<le> x / 2 ^ 53"
    and am: "a \<le> m" and m1: "1024 < m" and m2: "m < 2 ^ 32"
  shows "toUnsignedLong (rnd (of_nat a * rnd (1024 / of_nat m))) \<le> 1024"
    and "\<bar>of_nat (toUnsignedLong (rnd (of_nat a * rnd (1024 / of_nat m))))
            - of_nat a * 1024 / of_nat m\<bar> \<le> (1::rat)"
proof -
  define x where "x = rnd (of_nat a * rnd (1024 / of_nat m))"
  define E :: rat where "E = of_nat a * 1024 / of_nat m"
  have mpos: "(0::rat) < of_nat m" using m1 by simp
  have cl: "\<bar>x - E\<bar> \<le> 3 / 2 ^ 43" and x0: "0 \<le> x"
    using scaled_close [OF R am m1 m2] by (simp_all add: x_def E_def)
  have "(of_nat a :: rat) \<le> of_nat m" using am by simp
  then have "of_nat a * 1024 \<le> (of_nat m * 1024 :: rat)" by simp
  then have "of_nat a * 1024 / of_nat m \<le> (of_nat m * 1024 :: rat) / of_nat m"
    using mpos by (intro divide_right_mono) simp_all
  then have E_le: "E \<le> 1024" using mpos by (simp add: E_def)
  have "(3::rat) / 2 ^ 43 < 1" by simp
  then have "x < 1025" using cl E_le by linarith
  then have "x < of_int 1025" by simp
  then have "\<lfloor>x\<rfloor> < 1025" by (simp only: floor_less_iff)
  then have f_le: "\<lfloor>x\<rfloor> \<le> 1024" by simp
  have f_ge: "0 \<le> \<lfloor>x\<rfloor>" using x0 by simp
  have "\<lfloor>x\<rfloor> mod 2 ^ 32 = \<lfloor>x\<rfloor>" using f_le f_ge by simp
  then have tul: "toUnsignedLong x = nat \<lfloor>x\<rfloor>"
    using x0 by (simp add: toUnsignedLong_def)
  have "nat \<lfloor>x\<rfloor> \<le> nat 1024" using f_le by (rule nat_mono)
  then have "toUnsignedLong x \<le> 1024" by (simp add: tul)
  then show "toUnsignedLong (rnd (of_nat a * rnd (1024 / of_nat m))) \<le> 1024"
    by (simp only: x_def)
  have "(of_nat (toUnsignedLong x) :: rat) = of_int \<lfloor>x\<rfloor>"
    using tul f_ge by simp
  moreover have "\<bar>of_int \<lfloor>x\<rfloor> - of_nat a * 1024 / of_nat m\<bar> \<le> (1::rat)"
    using floor_close [of m x a] m1 m2 cl by (simp add: E_def)
  ultimately have "\<bar>of_nat (toUnsignedLong x) - of_nat a * 1024 / of_nat m\<bar> \<le> (1::rat)"
    by (simp only:)
  then show "\<bar>of_nat (toUnsignedLong (rnd (of_nat a * rnd (1024 / of_nat m))))
            - of_nat a * 1024 / of_nat m\<bar> \<le> (1::rat)"
    by (simp only: x_def)
qed

lemma canvasSize_scaled:
  fixes rnd :: "rat \<Rightarrow> rat" and w h :: nat
  assumes R: "\<forall>x. x = 0 \<or> (1 / 2 ^ 23 \<le> x \<and> x \<le> 2048) \<longrightarrow> \<bar>rnd x - x\<bar> \<le> x / 2 ^ 53"
    and w2: "w < 2 ^ 32" and h2: "h < 2 ^ 32" and big: "1024 < w \<or> 1024 < h"
  shows "max (fst (canvasSize rnd w h)) (snd (canvasSize rnd w h)) = 1024
         \<and> \<bar>of_nat (fst (canvasSize rnd w h)) - of_nat w * 1024 / of_nat (max w h)\<bar> \<le> (1::rat)
         \<and> \<bar>of_nat (snd (canvasSize rnd w h)) - of_nat h * 1024 / of_nat (max w h)\<bar> \<le> (1::rat)"
proof (cases "h < w")
  case True
  then have w1: "1024 < w" using big by linarith
  have hw: "h \<le> w" using True by simp
  have mx: "max w h = w" using True by simp
  have cs: "canvasSize rnd w h
              = (toUnsignedLong 1024, toUnsignedLong (rnd (of_nat h * rnd (1024 / of_nat w))))"
    using True w1 by (simp add: canvasSize_def scaleToFit_def MAX_WIDTH_def MAX_HEIGHT_def)
  have k: "toUnsignedLong 1024 = 1024"
    using toUnsignedLong_of_nat [of 1024] by simp
  have "(of_nat w :: rat) \<noteq> 0" using w1 by simp
  then have same: "(of_nat w :: rat) * 1024 / of_nat w = 1024" by simp
  show ?thesis
    using scaled_dim [OF R hw w1 w2] by (simp add: cs k mx same)
next
  case False
  then have wh: "w \<le> h" by simp
  then have h1: "1024 < h" using big by linarith
  have mx: "max w h = h" using wh by simp
  have cs: "canvasSize rnd w h
              = (toUnsignedLong (rnd (of_nat w * rnd (1024 / of_nat h))), toUnsignedLong 1024)"
    using False h1 by (simp add: canvasSize_def scaleToFit_def MAX_WIDTH_def MAX_HEIGHT_def)
  have k: "toUnsignedLong 1024 = 1024"
    using toUnsignedLong_of_nat [of 1024] by simp
  have "(of_nat h :: rat) \<noteq> 0" using h1 by simp
  then have same: "(of_nat h :: rat) * 1024 / of_nat h = 1024" by simp
  show ?thesis
    using scaled_dim [OF R wh h1 h2] by (simp add: cs k mx same)
qed

lemma canvasSize_small:
  assumes "w \<le> 1024" "h \<le> 1024"
  shows "canvasSize rnd w h = (w, h)"
proof -
  have "w < 2 ^ 32" "h < 2 ^ 32" using assms by simp_all
  then have "toUnsignedLong (of_nat w) = w" "toUnsignedLong (of_nat h) = h"
    by (simp_all add: toUnsignedLong_of_nat)
  then show ?thesis
    using assms by (simp add: canvasSize_def scaleToFit_def MAX_WIDTH_def MAX_HEIGHT_def)
qed

subsection \<open>The bridge handler and its normalisation\<close>

lemma handleResult_ok:
  assumes "mappedResult (parseInput e res) (now e) = Some r"
  shows "history (handleResult e res s) = historyItem r (randomUUID e) [] # history s"
    and "currentResult (handleResult e res s) = Some r"
    and "view (handleResult e res s) = RESULT" and "status (handleResult e res s) = COMPLETE"
  using assms by (simp_all add: handleResult_def Let_def)

lemma startsWith_prefix: "startsWith s p = prefix p s"
proof
  assume "startsWith s p"
  then have "take (length p) s = p" by (simp add: startsWith_def)
  then have "s = p @ drop (length p) s" by (metis append_take_drop_id)
  then show "prefix p s" by (rule prefixI)
next
  assume "prefix p s"
  then show "startsWith s p" by (auto simp: startsWith_def prefix_def)
qed

lemma includes'_sublist: "includes' s p = sublist p s"
  by (induction s) (simp_all add: startsWith_prefix sublist_Cons_right)

text \<open>Against a lower-case letter, equality up to case is equality after lower-casing.\<close>

lemma sameLetter_lower:
  assumes d: "d \<in> set ''abcdefghijklmnopqrstuvwxyz''"
  shows "sameLetter c d = (asciiLower c = d)"
proof -
  define U where "U = ''ABCDEFGHIJKLMNOPQRSTUVWXYZ''"
  define L where "L = ''abcdefghijklmnopqrstuvwxyz''"
  have dist: "distinct (map fst (zip U L))"
    by (simp add: U_def L_def)
  have disj: "set U \<inter> set L = {}"
    by (simp add: U_def L_def)
  have dL: "d \<in> set L" using d by (simp only: L_def)
  then have dU: "d \<notin> set U" using disj by blast
  have no_rev: "(d, c) \<notin> set (zip U L)"
    using dU by (auto dest: set_zip_leftD)
  have "sameLetter c d
          = (c = d \<or> (c, d) \<in> set (zip U L) \<or> (d, c) \<in> set (zip U L))"
    by (simp only: sameLetter_def U_def L_def)
  then have same: "sameLetter c d = (c = d \<or> (c, d) \<in> set (zip U L))"
    using no_rev by blast
  have low: "asciiLower c = (case map_of (zip U L) c of None \<Rightarrow> c | Some l \<Rightarrow> l)"
    by (simp only: asciiLower_def U_def L_def)
  show ?thesis
  proof (cases "map_of (zip U L) c")
    case None
    then have "c \<notin> fst ` set (zip U L)" by (simp add: map_of_eq_None_iff)
    then have "(c, d) \<notin> set (zip U L)" by force
    then show ?thesis using same low None by (simp only: option.case) blast
  next
    case (Some l)
    then have cl: "(c, l) \<in> set (zip U L)" by (rule map_of_SomeD)
    then have "c \<in> set U" by (rule set_zip_leftD)
    then have ne: "c \<noteq> d" using dU by blast
    have "(c, d) \<in> set (zip U L) \<longleftrightarrow> map_of (zip U L) c = Some d"
      using dist by (simp only: map_of_eq_Some_iff)
    then have "(c, d) \<in> set (zip U L) \<longleftrightarrow> l = d"
      using Some by simp
    then show ?thesis using same low Some ne by (simp only: option.case) blast
  qed
qed

lemma startsWithIgnoringCase_prefix:
  assumes "set p \<subseteq> set ''abcdefghijklmnopqrstuvwxyz''"
  shows "startsWithIgnoringCase s p = prefix p (map asciiLower s)"
  using assms
proof (induction s p rule: startsWithIgnoringCase.induct)
  case (1 s)
  show ?case by simp
next
  case (2 d p)
  show ?case by simp
next
  case (3 c s d p)
  have d: "d \<in> set ''abcdefghijklmnopqrstuvwxyz''" and p: "set p \<subseteq> set ''abcdefghijklmnopqrstuvwxyz''"
    using "3.prems" by simp_all
  have "startsWithIgnoringCase s p = prefix p (map asciiLower s)"
    using "3.IH" p by simp
  then show ?case
    using sameLetter_lower [OF d, of c] by auto
qed

lemma containsIgnoringCase_sublist:
  assumes "set p \<subseteq> set ''abcdefghijklmnopqrstuvwxyz''"
  shows "containsIgnoringCase s p = sublist p (map asciiLower s)"
proof (induction s)
  case Nil
  show ?case by simp
next
  case (Cons c cs)
  have "startsWithIgnoringCase (c # cs) p = prefix p (map asciiLower (c # cs))"
    by (rule startsWithIgnoringCase_prefix [OF assms])
  then show ?case using Cons by (simp add: sublist_Cons_right)
qed

lemma keywords_lower:
  "set ''ai'' \<subseteq> set ''abcdefghijklmnopqrstuvwxyz''"
  "set ''synthetic'' \<subseteq> set ''abcdefghijklmnopqrstuvwxyz''"
  by simp_all

lemma mappedResult_Some:
  "\<not> nullish d \<Longrightarrow> \<exists>r. mappedResult d ts = Some r"
  by (simp add: mappedResult_def)

lemma mappedResult_fields:
  assumes "mappedResult d ts = Some r"
  shows "isAI r = jsOr (getProp d ''isAI'') (JBool False)"
    and "score r = (if isNumber (getProp d ''score'') then getProp d ''score''
                    else if truthy (getProp d ''isAI'') then JNum 98 else JNum 2)"
    and "verdict r = jsOr (getProp d ''verdict'')
                      (if truthy (getProp d ''isAI'') then JStr ''SYNTHETIC DETECTED''
                       else JStr ''AUTHENTIC'')"
    and "technicalDetails r = jsOr (getProp d ''technicalDetails'')
                        (JArr [JStr ''External verification complete'',
                               JStr ''Bridge data integrity: OK''])"
    and "forensicMetrics r = jsOr (getProp d ''forensicMetrics'')
                        (JObj [(''biometricIntegrity'', JNum 50), (''textureFidelity'', JNum 50),
                               (''lightingConsistency'', JNum 50), (''physicalLogic'', JNum 50)])"
    and "humanPerception r = jsOr (getProp d ''humanPerception'')
                        (JObj [(''realnessScore'', JNum 50), (''suspiciousnessScore'', JNum 50),
                               (''perceptualInconsistency'', JNum 0), (''artifactLevel'', JNum 0)])"
    and "suspiciousRegions r = jsOr (getProp d ''suspiciousRegions'') (JArr [])"
    and "watermark r = jsOr (getProp d ''watermark'')
                        (JObj [(''detected'', JBool False), (''signatures'', JArr [])])"
proof -
  from assms have n: "\<not> nullish d"
    by (auto simp: mappedResult_def split: if_splits)
  show "isAI r = jsOr (getProp d ''isAI'') (JBool False)"
    using assms n by (auto simp: mappedResult_def)
  show "score r = (if isNumber (getProp d ''score'') then getProp d ''score''
                    else if truthy (getProp d ''isAI'') then JNum 98 else JNum 2)"
    using assms n by (auto simp: mappedResult_def)
  show "verdict r = jsOr (getProp d ''verdict'')
                      (if truthy (getProp d ''isAI'') then JStr ''SYNTHETIC DETECTED''
                       else JStr ''AUTHENTIC'')"
    using assms n by (auto simp: mappedResult_def)
  show "technicalDetails r = jsOr (getProp d ''technicalDetails'')
                        (JArr [JStr ''External verification complete'',
                               JStr ''Bridge data integrity: OK''])"
    using assms n by (auto simp: mappedResult_def)
  show "forensicMetrics r = jsOr (getProp d ''forensicMetrics'')
                        (JObj [(''biometricIntegrity'', JNum 50), (''textureFidelity'', JNum 50),
                               (''lightingConsistency'', JNum 50), (''physicalLogic'', JNum 50)])"
    using assms n by (auto simp: mappedResult_def)
  show "humanPerception r = jsOr (getProp d ''humanPerception'')
                        (JObj [(''realnessScore'', JNum 50), (''suspiciousnessScore'', JNum 50),
                               (''perceptualInconsistency'', JNum 0), (''artifactLevel'', JNum 0)])"
    using assms n by (auto simp: mappedResult_def)
  show "suspiciousRegions r = jsOr (getProp d ''suspiciousRegions'') (JArr [])"
    using assms n by (auto simp: mappedResult_def)
  show "watermark r = jsOr (getProp d ''watermark'')
                        (JObj [(''detected'', JBool False), (''signatures'', JArr [])])"
    using assms n by (auto simp: mappedResult_def)
qed

lemma keywordVerdict_props:
  "getProp (keywordVerdict e str) ''isAI''
     = JBool (sublist ''ai'' (toLowerCase e str) \<or> sublist ''synthetic'' (toLowerCase e str))"
  "getProp (keywordVerdict e str) ''score''
     = JNum (if sublist ''ai'' (toLowerCase e str) \<or> sublist ''synthetic'' (toLowerCase e str)
             then 95 else 5)"
  "\<not> nullish (keywordVerdict e str)"
  by (simp_all add: keywordVerdict_def Let_def includes'_sublist)


section \<open>The example inputs, evaluated\<close>

lemma browser0_photo: "fileToBase64 browser0 photo = Inr ''jpeg-of-pixels''"
  by (simp add: fileToBase64_def optimizeImageForMobile_def browser0_def photo_def startsWith_def
    canvasSize_def scaleToFit_def toUnsignedLong_def MAX_WIDTH_def MAX_HEIGHT_def)

lemma browser0_damaged: "fileToBase64 browser0 damaged = Inr ''damaged''"
  by (simp add: fileToBase64_def optimizeImageForMobile_def browser0_def damaged_def startsWith_def)

lemma browser0_clip: "fileToBase64 browser0 clip = Inr ''frames''"
  by (simp add: fileToBase64_def browser0_def clip_def startsWith_def)

lemma browser0_analyze_damaged:
  "analyzeContent browser0 ''damaged'' mime = Inl (Error ''Unable to process input image'')"
  by (simp add: analyzeContent_def browser0_def)

lemma browser0_analyze_ok:
  "b64 \<noteq> ''damaged'' \<Longrightarrow>
   analyzeContent browser0 b64 mime = Inr (stamp (JObj []) ''2025-01-01T00:00:00.000Z'')"
  by (simp add: analyzeContent_def browser0_def)

lemma mime_examples:
  "effectiveMimeType photo = ''image/jpeg''" "effectiveMimeType damaged = ''image/jpeg''"
  "effectiveMimeType clip = ''video/mp4''"
  by (simp_all add: effectiveMimeType_def photo_def damaged_def clip_def startsWith_def)


lemma browser1_files:
  "fileToBase64 browser1 photo = Inr ''jpeg-of-pixels''"
  "fileToBase64 browser1 unreadable = Inl Other"
  "fileToBase64 browser1 clip = Inr ''frames''"
  by (simp_all add: fileToBase64_def optimizeImageForMobile_def browser1_def browser0_def
        photo_def unreadable_def clip_def startsWith_def canvasSize_def scaleToFit_def
        toUnsignedLong_def MAX_WIDTH_def MAX_HEIGHT_def)

lemma bridge_empty_object:
  "mappedResult (parseInput browser0 (JObj [])) (now browser0)
     = mappedResult (JObj []) ''2025-01-01T00:00:00.000Z''"
  "\<not> nullish (JObj [])"
  by (simp_all add: parseInput_def browser0_def)


lemma browser0_exact:
  "\<forall>x. x = 0 \<or> (1 / 2 ^ 23 \<le> x \<and> x \<le> 2048) \<longrightarrow> \<bar>fl browser0 x - x\<bar> \<le> x / 2 ^ 53"
  by (simp add: browser0_def)

lemma browser0_optimize:
  "optimizeImageForMobile browser0 photo = Inr (''jpeg-of-pixels'', ''image/jpeg'')"
  "optimizeImageForMobile browser0 icon = Inr (''jpeg-of-small'', ''image/jpeg'')"
  "imageLoad browser0 photo = Some (2048, 1536)"
  "imageLoad browser0 icon = Some (640, 480)"
  by (simp_all add: optimizeImageForMobile_def browser0_def photo_def icon_def
        canvasSize_def scaleToFit_def toUnsignedLong_def MAX_WIDTH_def MAX_HEIGHT_def)


section \<open>Properties\<close>

text \<open>
  Claim C1, as the code has it. A batch of \<open>N\<close> files (\<open>N \<ge> 2\<close>, the selections that
  start a batch), of which \<open>k\<close> fail in preprocessing or analysis: the outside calls
  made during the batch are, file by file in input order, the preprocessing of the file
  followed by the analysis request for it when its preprocessing succeeded, and nothing
  else; so the preprocessor is called exactly \<open>N\<close> times, once per file, and the
  analysis once for each file whose preprocessing succeeded, which is \<open>N\<close> times less
  the preprocessing failures. The progress counter ends at \<open>N\<close>; the batch results are
  those of the \<open>N - k\<close> files that succeeded, in input order; the history gains their
  \<open>N - k\<close> items, the latest first; the queue is empty and the batch ends in the
  batch-result view with status complete.
\<close>

theorem batch_counts:
  assumes "2 \<le> length files"
  shows "effects (runBatch w 0 (handleScanStart e files s))
           = effects s @ batchEffects w 0 files
         \<and> preprocessCalls (effects (runBatch w 0 (handleScanStart e files s)))
             = preprocessCalls (effects s) @ files
         \<and> requests (effects (runBatch w 0 (handleScanStart e files s)))
             = requests (effects s) @ requests (batchEffects w 0 files)
         \<and> length (requests (batchEffects w 0 files))
             = length files - preprocessFailures w 0 files
         \<and> preprocessFailures w 0 files \<le> failures w 0 files
         \<and> batchProgress (runBatch w 0 (handleScanStart e files s)) = length files
         \<and> failures w 0 files \<le> length files
         \<and> batchResults (runBatch w 0 (handleScanStart e files s)) = batchOutcomes w 0 files
         \<and> length (batchResults (runBatch w 0 (handleScanStart e files s)))
             = length files - failures w 0 files
         \<and> history (runBatch w 0 (handleScanStart e files s))
             = rev (batchItems w 0 files) @ history s
         \<and> length (history (runBatch w 0 (handleScanStart e files s)))
             = length (history s) + (length files - failures w 0 files)
         \<and> batchQueue (runBatch w 0 (handleScanStart e files s)) = []
         \<and> view (runBatch w 0 (handleScanStart e files s)) = BATCH_RESULT
         \<and> status (runBatch w 0 (handleScanStart e files s)) = COMPLETE"
proof -
  obtain f g rest where files: "files = f # g # rest"
    using assms by (cases files; cases "tl files") auto
  let ?s0 = "handleScanStart e files s"
  have s0: "?s0 = s\<lparr> batchQueue := files, batchResults := [], batchProgress := 0,
                      view := BATCH_PROCESSING, status := ANALYZING \<rparr>"
    by (simp add: handleScanStart_def files)
  have v: "view ?s0 = BATCH_PROCESSING" and q: "batchQueue ?s0 = files"
    by (simp_all add: s0)
  have ne: "files \<noteq> []" by (simp add: files)
  have eff: "effects (runBatch w 0 ?s0) = effects s @ batchEffects w 0 files"
    and res: "batchResults (runBatch w 0 ?s0) = batchOutcomes w 0 files"
    and his: "history (runBatch w 0 ?s0) = rev (batchItems w 0 files) @ history s"
    using runBatch_exact [OF v q, of w 0] by (simp_all add: s0)
  have pre: "preprocessCalls (effects (runBatch w 0 ?s0)) = preprocessCalls (effects s) @ files"
    by (simp add: eff preprocessCalls_append batchEffects_preprocessCalls)
  have req: "requests (effects (runBatch w 0 ?s0))
               = requests (effects s) @ requests (batchEffects w 0 files)"
    by (simp add: eff requests_append)
  have nreq: "length (requests (batchEffects w 0 files))
               = length files - preprocessFailures w 0 files"
    using batchEffects_requests [of w 0 files] by simp
  have counts: "batchProgress (runBatch w 0 ?s0) = length files
         \<and> length (batchResults (runBatch w 0 ?s0)) = length files - failures w 0 files
         \<and> length (history (runBatch w 0 ?s0))
             = length (history s) + (length files - failures w 0 files)
         \<and> batchQueue (runBatch w 0 ?s0) = []
         \<and> view (runBatch w 0 ?s0) = BATCH_RESULT
         \<and> status (runBatch w 0 ?s0) = COMPLETE"
    using runBatch_drains [OF v q, of w 0] ne by (simp add: s0)
  show ?thesis
    using eff pre req nreq preprocessFailures_le [of w 0 files] failures_le [of w 0 files]
      res his counts
    by (simp only: simp_thms)
qed

theorem batch_counts_witness:
  "2 \<le> length [photo, damaged, clip]
   \<and> failures (\<lambda>n. browser0) 0 [photo, damaged, clip] = 1
   \<and> effects (runBatch (\<lambda>n. browser0) 0
         (handleScanStart browser0 [photo, damaged, clip] withEarlier))
       = [Preprocess photo, Analyze ''jpeg-of-pixels'' ''image/jpeg'',
          Preprocess damaged, Analyze ''damaged'' ''image/jpeg'',
          Preprocess clip, Analyze ''frames'' ''video/mp4'']
   \<and> preprocessCalls (effects (runBatch (\<lambda>n. browser0) 0
         (handleScanStart browser0 [photo, damaged, clip] withEarlier)))
       = [photo, damaged, clip]
   \<and> batchProgress (runBatch (\<lambda>n. browser0) 0
         (handleScanStart browser0 [photo, damaged, clip] withEarlier)) = 3
   \<and> map fileName (batchResults (runBatch (\<lambda>n. browser0) 0
         (handleScanStart browser0 [photo, damaged, clip] withEarlier)))
       = [''photo.png'', ''clip.mp4'']
   \<and> length (batchResults (runBatch (\<lambda>n. browser0) 0
         (handleScanStart browser0 [photo, damaged, clip] withEarlier))) = 2
   \<and> map thumbnail (history (runBatch (\<lambda>n. browser0) 0
         (handleScanStart browser0 [photo, damaged, clip] withEarlier)))
       = [''blob:clip.mp4'', ''blob:photo.png'', ''blob:old'']
   \<and> length (history (runBatch (\<lambda>n. browser0) 0
         (handleScanStart browser0 [photo, damaged, clip] withEarlier))) = 3"
proof -
  have h: "2 \<le> length [photo, damaged, clip]" by simp
  have o: "scanOutcome browser0 photo = Inr (stamp (JObj []) ''2025-01-01T00:00:00.000Z'')"
      "scanOutcome browser0 damaged = Inl (Error ''Unable to process input image'')"
      "scanOutcome browser0 clip = Inr (stamp (JObj []) ''2025-01-01T00:00:00.000Z'')"
    by (simp_all add: scanOutcome_def browser0_photo browser0_damaged browser0_clip
          browser0_analyze_damaged browser0_analyze_ok mime_examples)
  have n: "name photo = ''photo.png''" "name clip = ''clip.mp4''"
      "createObjectURL browser0 photo = ''blob:photo.png''"
      "createObjectURL browser0 clip = ''blob:clip.mp4''"
    by (simp_all add: photo_def clip_def browser0_def)
  have t: "history withEarlier = [earlier]" "thumbnail earlier = ''blob:old''"
      "effects withEarlier = []"
    by (simp_all add: withEarlier_def initialApp_def earlier_def historyItem_def)
  show ?thesis
    using batch_counts [OF h, of "\<lambda>n. browser0" browser0 withEarlier] t
    by (simp add: o n browser0_photo browser0_damaged browser0_clip mime_examples
          historyItem_def)
qed

text \<open>
  Claim C1 as stated fails: in a batch of three files whose second one the reader cannot
  read, the preprocessor is called three times and the analysis only twice.
\<close>

theorem batch_pair_counterexample:
  "length [photo, unreadable, clip] = 3
   \<and> preprocessCalls (effects (runBatch (\<lambda>n. browser1) 0
         (handleScanStart browser1 [photo, unreadable, clip] initialApp)))
       = [photo, unreadable, clip]
   \<and> requests (effects (runBatch (\<lambda>n. browser1) 0
         (handleScanStart browser1 [photo, unreadable, clip] initialApp)))
       = [(''jpeg-of-pixels'', ''image/jpeg''), (''frames'', ''video/mp4'')]
   \<and> length (requests (effects (runBatch (\<lambda>n. browser1) 0
         (handleScanStart browser1 [photo, unreadable, clip] initialApp)))) \<noteq> 3"
proof -
  let ?s0 = "handleScanStart browser1 [photo, unreadable, clip] initialApp"
  have v: "view ?s0 = BATCH_PROCESSING" and q: "batchQueue ?s0 = [photo, unreadable, clip]"
    and e: "effects ?s0 = []"
    by (simp_all add: handleScanStart_def initialApp_def)
  have "effects (runBatch (\<lambda>n. browser1) 0 ?s0)
          = [Preprocess photo, Analyze ''jpeg-of-pixels'' ''image/jpeg'',
             Preprocess unreadable,
             Preprocess clip, Analyze ''frames'' ''video/mp4'']"
    using runBatch_exact [OF v q, of "\<lambda>n. browser1" 0]
    by (simp add: e browser1_files mime_examples)
  then show ?thesis by simp
qed

text \<open>
  Claim C3. An image that is preprocessed successfully, in a browser whose arithmetic
  rounds each result in the range that occurs with a relative error of at most
  \<open>1 / 2 ^ 53\<close> (double precision): the payload is the JPEG encoding at quality 0.85 of
  the canvas; when the width or the height of the image exceeds 1024, the larger side
  of the canvas is exactly 1024 and each side is within one pixel of the side of the
  image times \<open>1024 / max width height\<close>; when both are at most 1024 the canvas has the
  size of the image.
\<close>

theorem optimize_dimensions:
  assumes ok: "optimizeImageForMobile e f = Inr out"
    and R: "\<forall>x. x = 0 \<or> (1 / 2 ^ 23 \<le> x \<and> x \<le> 2048) \<longrightarrow> \<bar>fl e x - x\<bar> \<le> x / 2 ^ 53"
  shows "\<exists>imgw imgh cw ch.
           imageLoad e f = Some (imgw, imgh)
         \<and> canvasSize (fl e) (unat imgw) (unat imgh) = (cw, ch)
         \<and> out = (toDataURL e f cw ch ''image/jpeg'' JPEG_QUALITY, ''image/jpeg'')
         \<and> JPEG_QUALITY = 85 / 100
         \<and> (1024 < unat imgw \<or> 1024 < unat imgh \<longrightarrow>
               max cw ch = 1024
             \<and> \<bar>of_nat cw - of_nat (unat imgw) * 1024 / of_nat (max (unat imgw) (unat imgh))\<bar>
                 \<le> (1::rat)
             \<and> \<bar>of_nat ch - of_nat (unat imgh) * 1024 / of_nat (max (unat imgw) (unat imgh))\<bar>
                 \<le> (1::rat))
         \<and> (unat imgw \<le> 1024 \<and> unat imgh \<le> 1024 \<longrightarrow> cw = unat imgw \<and> ch = unat imgh)"
proof -
  from ok obtain imgw imgh where img: "imageLoad e f = Some (imgw, imgh)"
    by (auto simp: optimizeImageForMobile_def split: option.splits)
  obtain cw ch where cs: "canvasSize (fl e) (unat imgw) (unat imgh) = (cw, ch)"
    by (cases "canvasSize (fl e) (unat imgw) (unat imgh)") auto
  have out: "out = (toDataURL e f cw ch ''image/jpeg'' JPEG_QUALITY, ''image/jpeg'')"
    using ok img cs
    by (auto simp: optimizeImageForMobile_def split: option.splits if_splits)
  have w2: "unat imgw < 2 ^ 32" and h2: "unat imgh < 2 ^ 32"
    using unsigned_less [of imgw, where ?'a = nat] unsigned_less [of imgh, where ?'a = nat]
    by simp_all
  have big: "1024 < unat imgw \<or> 1024 < unat imgh \<longrightarrow>
               max cw ch = 1024
             \<and> \<bar>of_nat cw - of_nat (unat imgw) * 1024 / of_nat (max (unat imgw) (unat imgh))\<bar>
                 \<le> (1::rat)
             \<and> \<bar>of_nat ch - of_nat (unat imgh) * 1024 / of_nat (max (unat imgw) (unat imgh))\<bar>
                 \<le> (1::rat)"
  proof
    assume b: "1024 < unat imgw \<or> 1024 < unat imgh"
    show "max cw ch = 1024
             \<and> \<bar>of_nat cw - of_nat (unat imgw) * 1024 / of_nat (max (unat imgw) (unat imgh))\<bar>
                 \<le> (1::rat)
             \<and> \<bar>of_nat ch - of_nat (unat imgh) * 1024 / of_nat (max (unat imgw) (unat imgh))\<bar>
                 \<le> (1::rat)"
      using canvasSize_scaled [OF R w2 h2 b] by (simp only: cs fst_conv snd_conv)
  qed
  have small: "unat imgw \<le> 1024 \<and> unat imgh \<le> 1024 \<longrightarrow> cw = unat imgw \<and> ch = unat imgh"
    using canvasSize_small [of "unat imgw" "unat imgh" "fl e"] cs by auto
  have q: "JPEG_QUALITY = 85 / 100" by (simp add: JPEG_QUALITY_def)
  show ?thesis
    using img cs out q big small by blast
qed

theorem optimize_dimensions_witness:
  "optimizeImageForMobile browser0 photo = Inr (''jpeg-of-pixels'', ''image/jpeg'')
   \<and> optimizeImageForMobile browser0 icon = Inr (''jpeg-of-small'', ''image/jpeg'')
   \<and> fl browser0 = (\<lambda>x. x)
   \<and> (\<exists>cw ch. canvasSize (fl browser0) 2048 1536 = (cw, ch) \<and> max cw ch = 1024
         \<and> \<bar>of_nat ch - 768\<bar> \<le> (1::rat))
   \<and> canvasSize (fl browser0) 640 480 = (640, 480)"
proof -
  have "fl browser0 = (\<lambda>x. x)" by (simp add: browser0_def)
  then show ?thesis
    using optimize_dimensions [OF browser0_optimize(1) browser0_exact]
      optimize_dimensions [OF browser0_optimize(2) browser0_exact]
      browser0_optimize
    by auto
qed

text \<open>
  Claim C7. A selection of no file changes nothing, neither at once nor later. A selection
  of exactly one file puts the controller in the scanning view with status analyzing by
  the time the handler first gives control back; the handler goes on from that state with
  the scan of that file, calls the preprocessor on it and on nothing else, leaves the
  batch queue alone and ends in the result view or, after a failure, in the home view. A
  selection of two or more files puts the controller in the batch view with status
  analyzing and the whole selection as the queue, and makes no outside call.
\<close>

theorem handleScanStart_routes:
  "(files = [] \<longrightarrow> handleScanStart_enter e files s = s \<and> handleScanStart e files s = s)
   \<and> (length files = 1 \<longrightarrow>
        view (handleScanStart_enter e files s) = SCANNING
        \<and> status (handleScanStart_enter e files s) = ANALYZING
        \<and> batchQueue (handleScanStart_enter e files s) = batchQueue s
        \<and> scanResume e (hd files) (handleScanStart_enter e files s)
            = handleScanStart e files s
        \<and> preprocessCalls (effects (handleScanStart e files s))
            = preprocessCalls (effects s) @ files
        \<and> batchQueue (handleScanStart e files s) = batchQueue s
        \<and> (view (handleScanStart e files s) = RESULT
               \<and> status (handleScanStart e files s) = COMPLETE
               \<and> \<not> isl (scanOutcome e (hd files))
             \<or> view (handleScanStart e files s) = HOME
               \<and> status (handleScanStart e files s) = ERROR
               \<and> isl (scanOutcome e (hd files))))
   \<and> (2 \<le> length files \<longrightarrow>
        view (handleScanStart_enter e files s) = BATCH_PROCESSING
        \<and> status (handleScanStart_enter e files s) = ANALYZING
        \<and> batchQueue (handleScanStart_enter e files s) = files
        \<and> effects (handleScanStart_enter e files s) = effects s
        \<and> handleScanStart e files s = handleScanStart_enter e files s)"
proof (cases files)
  case Nil
  then show ?thesis by (simp add: handleScanStart_enter_def handleScanStart_def)
next
  case (Cons f fs)
  show ?thesis
  proof (cases fs)
    case Nil
    have one: "files = [f]" using Cons Nil by simp
    have enter: "handleScanStart_enter e [f] s = scanEnter e f s"
      by (simp add: handleScanStart_enter_def)
    have whole: "handleScanStart e [f] s = scanResume e f (scanEnter e f s)"
      by (simp add: handleScanStart_def)
    have bq: "batchQueue (scanEnter e f s) = batchQueue s"
      by (simp add: scanEnter_def Let_def)
    have fin: "preprocessCalls (effects (scanResume e f (scanEnter e f s)))
                 = preprocessCalls (effects s) @ [f]
               \<and> batchQueue (scanResume e f (scanEnter e f s)) = batchQueue s
               \<and> (view (scanResume e f (scanEnter e f s)) = RESULT
                      \<and> status (scanResume e f (scanEnter e f s)) = COMPLETE
                      \<and> \<not> isl (scanOutcome e f)
                    \<or> view (scanResume e f (scanEnter e f s)) = HOME
                      \<and> status (scanResume e f (scanEnter e f s)) = ERROR
                      \<and> isl (scanOutcome e f))"
      by (simp add: scanResume_def scanFailed_def scanOutcome_def Let_def bq
            scanEnter_fields preprocessCalls_append split: sum.splits)
    show ?thesis
      unfolding one using fin by (simp add: enter whole bq scanEnter_fields)
  next
    case (Cons g gs)
    then show ?thesis using \<open>files = f # fs\<close>
      by (simp add: handleScanStart_enter_def handleScanStart_def)
  qed
qed

theorem handleScanStart_routes_witness:
  "handleScanStart_enter browser0 [] withEarlier = withEarlier
   \<and> handleScanStart browser0 [] withEarlier = withEarlier
   \<and> length [photo] = 1
   \<and> view (handleScanStart_enter browser0 [photo] withEarlier) = SCANNING
   \<and> status (handleScanStart_enter browser0 [photo] withEarlier) = ANALYZING
   \<and> preprocessCalls (effects (handleScanStart browser0 [photo] withEarlier)) = [photo]
   \<and> view (handleScanStart browser0 [photo] withEarlier) = RESULT
   \<and> status (handleScanStart browser0 [photo] withEarlier) = COMPLETE
   \<and> length [damaged] = 1
   \<and> view (handleScanStart browser0 [damaged] withEarlier) = HOME
   \<and> status (handleScanStart browser0 [damaged] withEarlier) = ERROR
   \<and> 2 \<le> length [photo, clip]
   \<and> view (handleScanStart_enter browser0 [photo, clip] withEarlier) = BATCH_PROCESSING
   \<and> status (handleScanStart_enter browser0 [photo, clip] withEarlier) = ANALYZING
   \<and> batchQueue (handleScanStart_enter browser0 [photo, clip] withEarlier) = [photo, clip]"
proof -
  have o: "\<not> isl (scanOutcome browser0 photo)" "isl (scanOutcome browser0 damaged)"
    by (simp_all add: scanOutcome_def browser0_photo browser0_damaged
          browser0_analyze_damaged browser0_analyze_ok mime_examples)
  have t: "effects withEarlier = []"
    by (simp add: withEarlier_def initialApp_def)
  show ?thesis
    using handleScanStart_routes [where files = "[]" and e = browser0 and s = withEarlier]
      handleScanStart_routes [where files = "[photo]" and e = browser0 and s = withEarlier]
      handleScanStart_routes [where files = "[damaged]" and e = browser0 and s = withEarlier]
      handleScanStart_routes [where files = "[photo, clip]" and e = browser0 and s = withEarlier]
      o t
    by simp
qed

text \<open>
  Claim C8. When the preprocessing or the analysis of a single scan fails, exactly one
  alert is shown (the list of alerts grows by the one message for that error), the view
  is home, the status is error, the scan sets no current result (it is what it was) and
  the history is what it was.
\<close>

theorem single_scan_failure:
  assumes "fileToBase64 e f = Inl err \<or>
           (\<exists>b64. fileToBase64 e f = Inr b64 \<and>
                  analyzeContent e b64 (effectiveMimeType f) = Inl err)"
  shows "alerts (effects (handleScanStart e [f] s)) = alerts (effects s) @ [alertText err]
         \<and> view (handleScanStart e [f] s) = HOME
         \<and> status (handleScanStart e [f] s) = ERROR
         \<and> currentResult (handleScanStart e [f] s) = currentResult s
         \<and> history (handleScanStart e [f] s) = history s"
  using scanResume_failed [OF assms, of "scanEnter e f s"]
  by (simp add: handleScanStart_def scanEnter_fields)

theorem single_scan_failure_witness:
  "fileToBase64 browser0 damaged = Inr ''damaged''
   \<and> analyzeContent browser0 ''damaged'' (effectiveMimeType damaged)
       = Inl (Error ''Unable to process input image'')
   \<and> alerts (effects (handleScanStart browser0 [damaged] withEarlier))
       = [''Analysis Error: Unable to process input image. Try a smaller image.'']
   \<and> view (handleScanStart browser0 [damaged] withEarlier) = HOME
   \<and> status (handleScanStart browser0 [damaged] withEarlier) = ERROR
   \<and> currentResult (handleScanStart browser0 [damaged] withEarlier) = None
   \<and> history (handleScanStart browser0 [damaged] withEarlier) = [earlier]"
proof -
  have h: "fileToBase64 browser0 damaged = Inl (Error ''Unable to process input image'') \<or>
           (\<exists>b64. fileToBase64 browser0 damaged = Inr b64 \<and>
                  analyzeContent browser0 b64 (effectiveMimeType damaged)
                    = Inl (Error ''Unable to process input image''))"
    by (simp add: browser0_damaged browser0_analyze_damaged)
  show ?thesis
    using single_scan_failure [OF h, of withEarlier]
    by (simp add: browser0_damaged browser0_analyze_damaged alertText_def withEarlier_def
          initialApp_def)
qed

text \<open>
  Claim C9. The history never gets shorter, whatever sequence of events the controller
  handles (file selections, runs of the batch effect, bridge injections, resets,
  navigation): the history before is a suffix of the history after. A single scan that
  succeeds, a batch item that succeeds and a bridge injection that yields a result each
  make it longer by exactly one. The reset clears the current file, the current result,
  the batch queue and the batch results, sets status idle and view home, and leaves the
  history as it is.
\<close>

theorem history_never_shrinks:
  "length (history s) \<le> length (history (run w n s evs))
   \<and> suffix (history s) (history (run w n s evs))
   \<and> (fileToBase64 e f = Inr pl \<and> analyzeContent e pl (effectiveMimeType f) = Inr r
        \<longrightarrow> length (history (handleScanStart e [f] s)) = Suc (length (history s)))
   \<and> (view s = BATCH_PROCESSING \<and> batchQueue s = f # remaining
        \<and> fileToBase64 e f = Inr pl \<and> analyzeContent e pl (effectiveMimeType f) = Inr r
        \<longrightarrow> length (history (processQueue e s)) = Suc (length (history s)))
   \<and> (mappedResult (parseInput e res) (now e) = Some r
        \<longrightarrow> length (history (handleResult e res s)) = Suc (length (history s)))
   \<and> currentFile (resetScanner s) = None
   \<and> currentResult (resetScanner s) = None
   \<and> batchQueue (resetScanner s) = []
   \<and> batchResults (resetScanner s) = []
   \<and> status (resetScanner s) = IDLE
   \<and> view (resetScanner s) = HOME
   \<and> history (resetScanner s) = history s"
proof -
  have suf: "suffix (history s) (history (run w n s evs))"
    by (rule run_history_suffix)
  then have len: "length (history s) \<le> length (history (run w n s evs))"
    by (rule suffix_length_le)
  have single: "fileToBase64 e f = Inr pl \<and> analyzeContent e pl (effectiveMimeType f) = Inr r
        \<longrightarrow> length (history (handleScanStart e [f] s)) = Suc (length (history s))"
    by (auto simp: handleScanStart_def scanResume_ok(1) scanEnter_fields)
  have batch: "view s = BATCH_PROCESSING \<and> batchQueue s = f # remaining
        \<and> fileToBase64 e f = Inr pl \<and> analyzeContent e pl (effectiveMimeType f) = Inr r
        \<longrightarrow> length (history (processQueue e s)) = Suc (length (history s))"
    by (auto simp: processQueue_ok(1))
  have bridge: "mappedResult (parseInput e res) (now e) = Some r
        \<longrightarrow> length (history (handleResult e res s)) = Suc (length (history s))"
    by (auto simp: handleResult_ok(1))
  show ?thesis
    using suf len single batch bridge by (simp add: resetScanner_def)
qed

theorem history_never_shrinks_witness:
  "length (history withEarlier)
     \<le> length (history (run (\<lambda>n. browser0) 0 withEarlier
          [ScanStart [photo], Reset, HandleResult (JObj []), ScanStart [photo, damaged],
           BatchStep, Navigate DASHBOARD, BatchStep, Reset]))
   \<and> fileToBase64 browser0 photo = Inr ''jpeg-of-pixels''
   \<and> analyzeContent browser0 ''jpeg-of-pixels'' (effectiveMimeType photo)
        = Inr (stamp (JObj []) ''2025-01-01T00:00:00.000Z'')
   \<and> length (history (handleScanStart browser0 [photo] withEarlier)) = 2
   \<and> view (handleScanStart browser0 [photo, damaged] withEarlier) = BATCH_PROCESSING
   \<and> batchQueue (handleScanStart browser0 [photo, damaged] withEarlier) = photo # [damaged]
   \<and> length (history (processQueue browser0
         (handleScanStart browser0 [photo, damaged] withEarlier))) = 2
   \<and> (\<exists>r. mappedResult (parseInput browser0 (JObj [])) (now browser0) = Some r)
   \<and> length (history (handleResult browser0 (JObj []) withEarlier)) = 2
   \<and> history (resetScanner (handleScanStart browser0 [photo] withEarlier))
       = history (handleScanStart browser0 [photo] withEarlier)"
proof -
  obtain r where r: "mappedResult (parseInput browser0 (JObj [])) (now browser0) = Some r"
    using mappedResult_Some [of "JObj []"] by (auto simp: bridge_empty_object(1))
  have ok: "analyzeContent browser0 ''jpeg-of-pixels'' (effectiveMimeType photo)
        = Inr (stamp (JObj []) ''2025-01-01T00:00:00.000Z'')"
    by (simp add: browser0_analyze_ok)
  have b: "view (handleScanStart browser0 [photo, damaged] withEarlier) = BATCH_PROCESSING"
       "batchQueue (handleScanStart browser0 [photo, damaged] withEarlier) = photo # [damaged]"
       "history (handleScanStart browser0 [photo, damaged] withEarlier) = [earlier]"
    by (simp_all add: handleScanStart_def withEarlier_def initialApp_def)
  have h: "history withEarlier = [earlier]"
    by (simp add: withEarlier_def initialApp_def)
  show ?thesis
    using history_never_shrinks [where s = withEarlier and w = "\<lambda>n. browser0" and n = 0
        and evs = "[ScanStart [photo], Reset, HandleResult (JObj []), ScanStart [photo, damaged],
           BatchStep, Navigate DASHBOARD, BatchStep, Reset]"
        and e = browser0 and f = photo and pl = "''jpeg-of-pixels''"
        and r = "stamp (JObj []) ''2025-01-01T00:00:00.000Z''"]
      history_never_shrinks [where s = "handleScanStart browser0 [photo, damaged] withEarlier"
        and e = browser0 and f = photo and pl = "''jpeg-of-pixels''" and remaining = "[damaged]"
        and r = "stamp (JObj []) ''2025-01-01T00:00:00.000Z''"]
      history_never_shrinks [where s = withEarlier and e = browser0 and res = "JObj []" and r = r]
      history_never_shrinks [where s = "handleScanStart browser0 [photo] withEarlier"]
      r ok b h browser0_photo
    by simp
qed

text \<open>
  Claim C4, as the code has it by design. The history is stored newest first: a completed
  single scan, a completed batch item and a bridge injection each put their new item in
  front of all existing items, which keep their order.
\<close>

theorem history_newest_first:
  "(fileToBase64 e f = Inr pl \<and> analyzeContent e pl (effectiveMimeType f) = Inr r
      \<longrightarrow> history (handleScanStart e [f] s)
            = historyItem r (randomUUID e) (createObjectURL e f) # history s)
   \<and> (view s = BATCH_PROCESSING \<and> batchQueue s = f # remaining
        \<and> fileToBase64 e f = Inr pl \<and> analyzeContent e pl (effectiveMimeType f) = Inr r
      \<longrightarrow> history (processQueue e s)
            = historyItem r (randomUUID e) (createObjectURL e f) # history s)
   \<and> (mappedResult (parseInput e res) (now e) = Some r
      \<longrightarrow> history (handleResult e res s) = historyItem r (randomUUID e) [] # history s)"
  by (auto simp: handleScanStart_def scanResume_ok(1) scanEnter_fields processQueue_ok(1)
        handleResult_ok(1))

theorem history_newest_first_witness:
  "fileToBase64 browser0 photo = Inr ''jpeg-of-pixels''
   \<and> analyzeContent browser0 ''jpeg-of-pixels'' (effectiveMimeType photo)
        = Inr (stamp (JObj []) ''2025-01-01T00:00:00.000Z'')
   \<and> history (handleScanStart browser0 [photo] withEarlier)
       = [historyItem (stamp (JObj []) ''2025-01-01T00:00:00.000Z'') ''uuid-1'' ''blob:photo.png'',
          earlier]
   \<and> view (handleScanStart browser0 [photo, damaged] withEarlier) = BATCH_PROCESSING
   \<and> batchQueue (handleScanStart browser0 [photo, damaged] withEarlier) = photo # [damaged]
   \<and> history (processQueue browser0 (handleScanStart browser0 [photo, damaged] withEarlier))
       = [historyItem (stamp (JObj []) ''2025-01-01T00:00:00.000Z'') ''uuid-1'' ''blob:photo.png'',
          earlier]
   \<and> (\<exists>r. mappedResult (parseInput browser0 (JObj [])) (now browser0) = Some r
          \<and> history (handleResult browser0 (JObj []) withEarlier)
              = [historyItem r ''uuid-1'' [], earlier])"
proof -
  obtain r where r: "mappedResult (parseInput browser0 (JObj [])) (now browser0) = Some r"
    using mappedResult_Some [of "JObj []"] by (auto simp: bridge_empty_object(1))
  have ok: "analyzeContent browser0 ''jpeg-of-pixels'' (effectiveMimeType photo)
        = Inr (stamp (JObj []) ''2025-01-01T00:00:00.000Z'')"
    by (simp add: browser0_analyze_ok)
  have b: "view (handleScanStart browser0 [photo, damaged] withEarlier) = BATCH_PROCESSING"
       "batchQueue (handleScanStart browser0 [photo, damaged] withEarlier) = photo # [damaged]"
       "history (handleScanStart browser0 [photo, damaged] withEarlier) = [earlier]"
    by (simp_all add: handleScanStart_def withEarlier_def initialApp_def)
  have h: "history withEarlier = [earlier]"
    by (simp add: withEarlier_def initialApp_def)
  have c: "randomUUID browser0 = ''uuid-1''" "createObjectURL browser0 photo = ''blob:photo.png''"
    by (simp_all add: browser0_def photo_def)
  show ?thesis
    using history_newest_first [where s = withEarlier and e = browser0 and f = photo
        and pl = "''jpeg-of-pixels''" and r = "stamp (JObj []) ''2025-01-01T00:00:00.000Z''"]
      history_newest_first [where s = "handleScanStart browser0 [photo, damaged] withEarlier"
        and e = browser0 and f = photo and pl = "''jpeg-of-pixels''" and remaining = "[damaged]"
        and r = "stamp (JObj []) ''2025-01-01T00:00:00.000Z''"]
      history_newest_first [where s = withEarlier and e = browser0 and res = "JObj []" and r = r]
      r ok b h c browser0_photo
    by simp
qed

text \<open>
  Claim C4 as stated fails: after a bridge injection into a history holding one earlier
  item, the new item is stored first, not last, and the recent-logs list shows the
  earlier item first.
\<close>

theorem history_oldest_first_counterexample:
  "map id' (history withEarlier) = [''uuid-0'']
   \<and> map id' (history (handleResult browser0 (JObj []) withEarlier)) = [''uuid-1'', ''uuid-0'']
   \<and> map id' (history (handleResult browser0 (JObj []) withEarlier))
       \<noteq> map id' (history withEarlier) @ [''uuid-1'']
   \<and> map_option (map id') (recentLogs (history (handleResult browser0 (JObj []) withEarlier)))
       = Some [''uuid-0'', ''uuid-1'']"
  by (simp add: handleResult_def parseInput_def mappedResult_def withEarlier_def initialApp_def
        browser0_def earlier_def historyItem_def recentLogs_def Let_def)

text \<open>
  Claim C5. A bridge injection of a string that \<open>JSON.parse\<close> rejects: the result is
  classified positive exactly when the string, lower-cased by the engine, contains \<open>ai\<close>
  or \<open>synthetic\<close>, with score 95 when positive and 5 when negative; it becomes the
  current result and the newest history item. Where the engine lower-cases the string
  letter by letter (as it does every string of ASCII characters), that is exactly when
  the string contains \<open>ai\<close> or \<open>synthetic\<close> up to the case of its letters.
\<close>

theorem bridge_keyword_heuristic:
  assumes "JSON_parse e str = None"
  shows "\<exists>r. currentResult (handleResult e (JStr str) s) = Some r
           \<and> history (handleResult e (JStr str) s) = historyItem r (randomUUID e) [] # history s
           \<and> isAI r = JBool (sublist ''ai'' (toLowerCase e str)
                               \<or> sublist ''synthetic'' (toLowerCase e str))
           \<and> score r = JNum (if sublist ''ai'' (toLowerCase e str)
                                  \<or> sublist ''synthetic'' (toLowerCase e str) then 95 else 5)
           \<and> (toLowerCase e str = map asciiLower str \<longrightarrow>
                 isAI r = JBool (containsIgnoringCase str ''ai''
                                 \<or> containsIgnoringCase str ''synthetic''))"
proof -
  have p: "parseInput e (JStr str) = keywordVerdict e str"
    using assms by (simp add: parseInput_def)
  obtain r where r: "mappedResult (parseInput e (JStr str)) (now e) = Some r"
    using mappedResult_Some [of "keywordVerdict e str" "now e"]
      keywordVerdict_props(3) [of e str] p
    by auto
  have f: "mappedResult (keywordVerdict e str) (now e) = Some r"
    using r p by simp
  have i: "isAI r = JBool (sublist ''ai'' (toLowerCase e str)
                           \<or> sublist ''synthetic'' (toLowerCase e str))"
    using mappedResult_fields(1) [OF f] by (simp add: keywordVerdict_props jsOr_def)
  have sc: "score r = JNum (if sublist ''ai'' (toLowerCase e str)
                                  \<or> sublist ''synthetic'' (toLowerCase e str) then 95 else 5)"
    using mappedResult_fields(2) [OF f] by (simp add: keywordVerdict_props)
  have ci: "toLowerCase e str = map asciiLower str \<longrightarrow>
              isAI r = JBool (containsIgnoringCase str ''ai''
                              \<or> containsIgnoringCase str ''synthetic'')"
    using i
    by (simp only: containsIgnoringCase_sublist [OF keywords_lower(1)]
          containsIgnoringCase_sublist [OF keywords_lower(2)]) simp
  show ?thesis
    using handleResult_ok(1,2) [OF r, of s] i sc ci by blast
qed

theorem bridge_keyword_heuristic_witness:
  "JSON_parse browser0 ''Looks SYNTHETIC'' = None
   \<and> JSON_parse browser0 ''camera original'' = None
   \<and> JSON_parse browser0 [CHR ''A'', CHR 0xC4, CHR 0xB0] = None
   \<and> toLowerCase browser0 ''Looks SYNTHETIC'' = map asciiLower ''Looks SYNTHETIC''
   \<and> containsIgnoringCase ''Looks SYNTHETIC'' ''synthetic''
   \<and> (\<exists>r. currentResult (handleResult browser0 (JStr ''Looks SYNTHETIC'') withEarlier) = Some r
           \<and> isAI r = JBool True \<and> score r = JNum 95)
   \<and> (\<exists>r. currentResult (handleResult browser0 (JStr ''camera original'') withEarlier) = Some r
           \<and> isAI r = JBool False \<and> score r = JNum 5)
   \<and> (\<exists>r. currentResult (handleResult browser0 (JStr [CHR ''A'', CHR 0xC4, CHR 0xB0]) withEarlier)
             = Some r
           \<and> isAI r = JBool True \<and> score r = JNum 95)"
proof -
  have h1: "JSON_parse browser0 ''Looks SYNTHETIC'' = None"
    and h2: "JSON_parse browser0 ''camera original'' = None"
    and h3: "JSON_parse browser0 [CHR ''A'', CHR 0xC4, CHR 0xB0] = None"
    by (simp_all add: browser0_def)
  have l0: "map asciiLower ''Looks SYNTHETIC'' = ''looks synthetic''"
    and l0': "map asciiLower ''camera original'' = ''camera original''"
    by (simp_all add: asciiLower_def)
  have l1: "toLowerCase browser0 ''Looks SYNTHETIC'' = ''looks synthetic''"
    and l2: "toLowerCase browser0 ''camera original'' = ''camera original''"
    and l3: "toLowerCase browser0 [CHR ''A'', CHR 0xC4, CHR 0xB0]
               = [CHR ''a'', CHR ''i'', CHR 0xCC, CHR 0x87]"
    using l0 l0' by (simp_all add: browser0_def)
  have k1: "sublist ''synthetic'' ''looks synthetic''"
    and k2: "\<not> sublist ''ai'' ''camera original''"
    and k3: "\<not> sublist ''synthetic'' ''camera original''"
    and k4: "sublist ''ai'' [CHR ''a'', CHR ''i'', CHR 0xCC, CHR 0x87]"
    unfolding includes'_sublist [symmetric]
    by (simp_all add: startsWith_def)
  have c1: "containsIgnoringCase ''Looks SYNTHETIC'' ''synthetic''"
    using k1 by (simp only: containsIgnoringCase_sublist [OF keywords_lower(2)] l0)
  obtain r1 where r1: "currentResult (handleResult browser0 (JStr ''Looks SYNTHETIC'') withEarlier)
                         = Some r1"
      "isAI r1 = JBool (sublist ''ai'' (toLowerCase browser0 ''Looks SYNTHETIC'')
                        \<or> sublist ''synthetic'' (toLowerCase browser0 ''Looks SYNTHETIC''))"
      "score r1 = JNum (if sublist ''ai'' (toLowerCase browser0 ''Looks SYNTHETIC'')
                           \<or> sublist ''synthetic'' (toLowerCase browser0 ''Looks SYNTHETIC'')
                        then 95 else 5)"
    using bridge_keyword_heuristic [OF h1, of withEarlier] by blast
  obtain r2 where r2: "currentResult (handleResult browser0 (JStr ''camera original'') withEarlier)
                         = Some r2"
      "isAI r2 = JBool (sublist ''ai'' (toLowerCase browser0 ''camera original'')
                        \<or> sublist ''synthetic'' (toLowerCase browser0 ''camera original''))"
      "score r2 = JNum (if sublist ''ai'' (toLowerCase browser0 ''camera original'')
                           \<or> sublist ''synthetic'' (toLowerCase browser0 ''camera original'')
                        then 95 else 5)"
    using bridge_keyword_heuristic [OF h2, of withEarlier] by blast
  obtain r3 where r3: "currentResult
                         (handleResult browser0 (JStr [CHR ''A'', CHR 0xC4, CHR 0xB0]) withEarlier)
                         = Some r3"
      "isAI r3 = JBool (sublist ''ai'' (toLowerCase browser0 [CHR ''A'', CHR 0xC4, CHR 0xB0])
                        \<or> sublist ''synthetic''
                             (toLowerCase browser0 [CHR ''A'', CHR 0xC4, CHR 0xB0]))"
      "score r3 = JNum (if sublist ''ai'' (toLowerCase browser0 [CHR ''A'', CHR 0xC4, CHR 0xB0])
                           \<or> sublist ''synthetic''
                                (toLowerCase browser0 [CHR ''A'', CHR 0xC4, CHR 0xB0])
                        then 95 else 5)"
    using bridge_keyword_heuristic [OF h3, of withEarlier] by blast
  have v1: "isAI r1 = JBool True \<and> score r1 = JNum 95"
    using r1(2,3) k1 by (simp only: l1 simp_thms if_True)
  have v2: "isAI r2 = JBool False \<and> score r2 = JNum 5"
    using r2(2,3) k2 k3 by (simp only: l2 simp_thms if_False)
  have v3: "isAI r3 = JBool True \<and> score r3 = JNum 95"
    using r3(2,3) k4 by (simp only: l3 simp_thms if_True)
  have a1: "toLowerCase browser0 ''Looks SYNTHETIC'' = map asciiLower ''Looks SYNTHETIC''"
    by (simp only: l1 l0)
  show ?thesis
    using h1 h2 h3 a1 c1 r1(1) v1 r2(1) v2 r3(1) v3 by blast
qed

text \<open>
  Claim C6, as the code has it. A bridge injection that yields a result: an unset block of
  forensic metrics becomes four times 50; an unset block of human-perception metrics
  becomes realness 50, suspiciousness 50, perceptual inconsistency 0 and artifact level
  0; unset suspicious regions become the empty list and an unset watermark block has an
  empty list of signatures; unset technical details become the two fixed notes; an unset
  verdict is derived from the classification.
\<close>

theorem bridge_neutral_defaults:
  assumes "mappedResult (parseInput e res) (now e) = Some r"
  shows "currentResult (handleResult e res s) = Some r
     \<and> (\<not> truthy (getProp (parseInput e res) ''forensicMetrics'') \<longrightarrow>
          forensicMetrics r =
            JObj [(''biometricIntegrity'', JNum 50), (''textureFidelity'', JNum 50),
                  (''lightingConsistency'', JNum 50), (''physicalLogic'', JNum 50)])
     \<and> (\<not> truthy (getProp (parseInput e res) ''humanPerception'') \<longrightarrow>
          humanPerception r =
            JObj [(''realnessScore'', JNum 50), (''suspiciousnessScore'', JNum 50),
                  (''perceptualInconsistency'', JNum 0), (''artifactLevel'', JNum 0)])
     \<and> (\<not> truthy (getProp (parseInput e res) ''suspiciousRegions'') \<longrightarrow>
          suspiciousRegions r = JArr [])
     \<and> (\<not> truthy (getProp (parseInput e res) ''watermark'') \<longrightarrow>
          watermark r = JObj [(''detected'', JBool False), (''signatures'', JArr [])])
     \<and> (\<not> truthy (getProp (parseInput e res) ''technicalDetails'') \<longrightarrow>
          technicalDetails r =
            JArr [JStr ''External verification complete'', JStr ''Bridge data integrity: OK''])
     \<and> (\<not> truthy (getProp (parseInput e res) ''verdict'') \<longrightarrow>
          verdict r = JStr (if truthy (isAI r) then ''SYNTHETIC DETECTED'' else ''AUTHENTIC''))"
  using mappedResult_fields [OF assms] handleResult_ok(2) [OF assms, of s]
  by (simp add: jsOr_def)

theorem bridge_neutral_defaults_witness:
  "(\<exists>r. mappedResult (parseInput browser0 (JObj [(''isAI'', JBool True)])) (now browser0) = Some r
      \<and> currentResult (handleResult browser0 (JObj [(''isAI'', JBool True)]) withEarlier) = Some r
      \<and> \<not> truthy (getProp (parseInput browser0 (JObj [(''isAI'', JBool True)])) ''forensicMetrics'')
      \<and> forensicMetrics r =
            JObj [(''biometricIntegrity'', JNum 50), (''textureFidelity'', JNum 50),
                  (''lightingConsistency'', JNum 50), (''physicalLogic'', JNum 50)]
      \<and> \<not> truthy (getProp (parseInput browser0 (JObj [(''isAI'', JBool True)])) ''humanPerception'')
      \<and> humanPerception r =
            JObj [(''realnessScore'', JNum 50), (''suspiciousnessScore'', JNum 50),
                  (''perceptualInconsistency'', JNum 0), (''artifactLevel'', JNum 0)]
      \<and> suspiciousRegions r = JArr []
      \<and> watermark r = JObj [(''detected'', JBool False), (''signatures'', JArr [])]
      \<and> technicalDetails r =
            JArr [JStr ''External verification complete'', JStr ''Bridge data integrity: OK'']
      \<and> verdict r = JStr ''SYNTHETIC DETECTED'')"
proof -
  let ?d = "JObj [(''isAI'', JBool True)]"
  have p: "parseInput browser0 ?d = ?d"
    by (simp add: parseInput_def)
  obtain r where r: "mappedResult (parseInput browser0 ?d) (now browser0) = Some r"
    using mappedResult_Some [of ?d "now browser0"] p by auto
  have i: "isAI r = JBool True"
    using mappedResult_fields(1) [OF r] by (simp add: p jsOr_def)
  show ?thesis
    using bridge_neutral_defaults [OF r, of withEarlier] r i
    by (auto simp: p)
qed

text \<open>
  Claim C6 as stated fails: for the empty object the artifact level and the perceptual
  inconsistency default to 0, not 50, and the technical details default to a list of two
  notes, not the empty list.
\<close>

theorem bridge_all_fifty_counterexample:
  "map_option (\<lambda>r. getProp (humanPerception r) ''artifactLevel'')
       (currentResult (handleResult browser0 (JObj []) initialApp)) = Some (JNum 0)
   \<and> map_option (\<lambda>r. getProp (humanPerception r) ''perceptualInconsistency'')
       (currentResult (handleResult browser0 (JObj []) initialApp)) = Some (JNum 0)
   \<and> JNum 0 \<noteq> JNum 50
   \<and> map_option technicalDetails (currentResult (handleResult browser0 (JObj []) initialApp))
       = Some (JArr [JStr ''External verification complete'', JStr ''Bridge data integrity: OK''])
   \<and> JArr [JStr ''External verification complete'', JStr ''Bridge data integrity: OK''] \<noteq> JArr []"
  by (simp add: handleResult_def parseInput_def mappedResult_def initialApp_def
        browser0_def jsOr_def Let_def)

text \<open>
  Claim C10. A bridge injection of an object: when its \<open>isAI\<close> is absent or falsy the
  result has \<open>isAI = false\<close>, a score that is not a number defaults to 2 and a verdict
  that is not given defaults to \<open>AUTHENTIC\<close>; when its \<open>isAI\<close> is truthy, a score that
  is not a number defaults to 98 and a verdict that is not given to
  \<open>SYNTHETIC DETECTED\<close>.
\<close>

theorem bridge_object_defaults:
  "\<exists>r. currentResult (handleResult e (JObj kvs) s) = Some r
      \<and> (\<not> truthy (getProp (JObj kvs) ''isAI'') \<longrightarrow>
            isAI r = JBool False
            \<and> (\<not> isNumber (getProp (JObj kvs) ''score'') \<longrightarrow> score r = JNum 2)
            \<and> (\<not> truthy (getProp (JObj kvs) ''verdict'') \<longrightarrow> verdict r = JStr ''AUTHENTIC''))
      \<and> (truthy (getProp (JObj kvs) ''isAI'') \<longrightarrow>
            (\<not> isNumber (getProp (JObj kvs) ''score'') \<longrightarrow> score r = JNum 98)
            \<and> (\<not> truthy (getProp (JObj kvs) ''verdict'') \<longrightarrow>
                  verdict r = JStr ''SYNTHETIC DETECTED''))"
proof -
  have p: "parseInput e (JObj kvs) = JObj kvs"
    by (simp add: parseInput_def)
  obtain r where r: "mappedResult (parseInput e (JObj kvs)) (now e) = Some r"
    using mappedResult_Some [of "JObj kvs" "now e"] p by auto
  have f: "mappedResult (JObj kvs) (now e) = Some r"
    using r p by simp
  show ?thesis
    using mappedResult_fields(1,2,3) [OF f] handleResult_ok(2) [OF r, of s]
    by (simp add: jsOr_def)
qed

theorem bridge_object_defaults_witness:
  "(\<exists>r. currentResult (handleResult browser0 (JObj [(''reasoning'', JStr ''n/a'')]) withEarlier)
           = Some r
        \<and> \<not> truthy (getProp (JObj [(''reasoning'', JStr ''n/a'')]) ''isAI'')
        \<and> isAI r = JBool False \<and> score r = JNum 2 \<and> verdict r = JStr ''AUTHENTIC'')
   \<and> (\<exists>r. currentResult (handleResult browser0 (JObj [(''isAI'', JBool True)]) withEarlier)
           = Some r
        \<and> truthy (getProp (JObj [(''isAI'', JBool True)]) ''isAI'')
        \<and> score r = JNum 98 \<and> verdict r = JStr ''SYNTHETIC DETECTED'')"
  using bridge_object_defaults [of browser0 "[(''reasoning'', JStr ''n/a'')]" withEarlier]
    bridge_object_defaults [of browser0 "[(''isAI'', JBool True)]" withEarlier]
  by auto

text \<open>
  Claim C2, at a PNG file that the browser cannot decode: the scan goes on and the raw
  payload is sent unmodified, but the MIME type sent with it is \<open>image/jpeg\<close>, not the
  file's \<open>image/png\<close>, in the single-scan path and in the batch path alike.
\<close>

theorem fallback_sends_jpeg_mime:
  "type damaged = ''image/png''
   \<and> imageLoad browser0 damaged = None
   \<and> readAsDataURL browser0 damaged = Some ''damaged''
   \<and> fileToBase64 browser0 damaged = Inr ''damaged''
   \<and> requests (effects (handleScanStart browser0 [damaged] initialApp))
       = [(''damaged'', ''image/jpeg'')]
   \<and> requests (effects (processQueue browser0
         (handleScanStart browser0 [damaged, photo] initialApp)))
       = [(''damaged'', ''image/jpeg'')]"
  by (simp add: handleScanStart_def scanResume_def scanEnter_def scanFailed_def processQueue_def
        browser0_damaged browser0_analyze_damaged mime_examples initialApp_def Let_def
        requests_append)
     (simp add: browser0_def damaged_def)

end
